theory Spec2Isabelle
  imports Complex_Main
begin

section \<open>Text primitives\<close>

text \<open>
  The interpreter of \<^verbatim>\<open>mix_engineer.py\<close> works on Python strings. A string is modelled as a
  list of characters whose code points lie below 256; \<^verbatim>\<open>str.lower\<close>, the substring test
  \<^verbatim>\<open>kw in s\<close>, the regular expression classes \<^verbatim>\<open>\d\<close> and \<^verbatim>\<open>\s\<close> and \<^verbatim>\<open>int(...)\<close> are
  written out for these code points.
\<close>

definition lower_char :: "char \<Rightarrow> char" where
  "lower_char c =
     (let n = (of_char c :: nat)
      in if (65 \<le> n \<and> n \<le> 90) \<or> (192 \<le> n \<and> n \<le> 222 \<and> n \<noteq> 215)
         then char_of (n + 32) else c)"

definition lower :: "string \<Rightarrow> string" where
  "lower s = map lower_char s"

fun startswith :: "string \<Rightarrow> string \<Rightarrow> bool" where
  "startswith [] s = True"
| "startswith (k # ks) [] = False"
| "startswith (k # ks) (c # s) = (k = c \<and> startswith ks s)"

text \<open>\<^verbatim>\<open>kw in s\<close>: the keyword occurs in \<open>s\<close> as a contiguous run of characters.\<close>

fun py_in :: "string \<Rightarrow> string \<Rightarrow> bool" where
  "py_in kw [] = (kw = [])"
| "py_in kw (c # s) = (startswith kw (c # s) \<or> py_in kw s)"

text \<open>\<^verbatim>\<open>any(kw in s for kw in KEYWORDS)\<close>\<close>

fun any_in :: "string list \<Rightarrow> string \<Rightarrow> bool" where
  "any_in [] s = False"
| "any_in (kw # kws) s = (py_in kw s \<or> any_in kws s)"

definition is_digit :: "char \<Rightarrow> bool" where
  "is_digit c = (let n = (of_char c :: nat) in 48 \<le> n \<and> n \<le> 57)"

definition is_space :: "char \<Rightarrow> bool" where
  "is_space c =
     (let n = (of_char c :: nat)
      in (9 \<le> n \<and> n \<le> 13) \<or> (28 \<le> n \<and> n \<le> 32) \<or> n = 133 \<or> n = 160)"

definition digit_val :: "char \<Rightarrow> int" where
  "digit_val c = int (of_char c) - 48"

text \<open>\<^verbatim>\<open>int(s)\<close> for a string of the shape \<^verbatim>\<open>[+-]?\d+\<close>, the only shape the source passes.\<close>

definition py_int :: "string \<Rightarrow> int" where
  "py_int s =
     (case s of
        [] \<Rightarrow> 0
      | c # r \<Rightarrow>
          if c = CHR ''-'' then - foldl (\<lambda>a d. 10 * a + digit_val d) 0 r
          else if c = CHR ''+'' then foldl (\<lambda>a d. 10 * a + digit_val d) 0 r
          else foldl (\<lambda>a d. 10 * a + digit_val d) 0 s)"

text \<open>
  \<^verbatim>\<open>re.search(r'([+-]?\d+)\s*db', prompt)\<close>. \<open>match_db_at\<close> tries the pattern at the head of
  the text and yields group 1; the greedy choice is the only one that can succeed, because
  a shorter run of digits (or of blanks) is followed by a digit (or a blank), never by
  \<^verbatim>\<open>d\<close>. \<open>re_search_db\<close> scans the start positions from left to right.
\<close>

definition match_db_at :: "string \<Rightarrow> string option" where
  "match_db_at s =
     (let (sign, r) = (case s of
                         [] \<Rightarrow> ([], [])
                       | c # t \<Rightarrow> if c = CHR ''+'' \<or> c = CHR ''-'' then ([c], t) else ([], s));
          ds = takeWhile is_digit r;
          after = dropWhile is_space (dropWhile is_digit r)
      in if ds \<noteq> [] \<and> startswith ''db'' after then Some (sign @ ds) else None)"

fun re_search_db :: "string \<Rightarrow> string option" where
  "re_search_db [] = match_db_at []"
| "re_search_db (c # s) =
     (case match_db_at (c # s) of Some g \<Rightarrow> Some g | None \<Rightarrow> re_search_db s)"

section \<open>Operations and the prompt parser\<close>

record eq_params =
  bass :: int
  mid :: int
  treble :: int

record compression_params =
  threshold :: int
  ratio :: int
  attack :: int
  release :: int

record reverb_params =
  room_size :: rat
  damping :: rat
  wet :: rat

record volume_params =
  db :: int

record width_params =
  width :: rat

text \<open>An entry of \<^verbatim>\<open>result['operations']\<close>: the \<^verbatim>\<open>type\<close> tag with its \<^verbatim>\<open>params\<close>.\<close>

datatype operation =
  Op_eq eq_params
| Op_compression compression_params
| Op_reverb reverb_params
| Op_volume volume_params
| Op_stereo_width width_params
| Op_master

fun op_type :: "operation \<Rightarrow> string" where
  "op_type (Op_eq p) = ''eq''"
| "op_type (Op_compression p) = ''compression''"
| "op_type (Op_reverb p) = ''reverb''"
| "op_type (Op_volume p) = ''volume''"
| "op_type (Op_stereo_width p) = ''stereo_width''"
| "op_type Op_master = ''master''"

definition EQ_KEYWORDS :: "string list" where
  "EQ_KEYWORDS = [''eq'', ''equalizer'', ''bass'', ''treble'', ''mid'', ''mids'', ''highs'', ''lows'',
                  ''frequency'', ''frequencies'', ''bright'', ''dark'', ''warm'', ''muddy'', ''crisp'']"

definition COMPRESSION_KEYWORDS :: "string list" where
  "COMPRESSION_KEYWORDS = [''compress'', ''compression'', ''compressor'', ''dynamics'',
                           ''punch'', ''punchy'', ''squash'', ''glue'', ''thick'']"

definition REVERB_KEYWORDS :: "string list" where
  "REVERB_KEYWORDS = [''reverb'', ''room'', ''hall'', ''space'', ''ambient'', ''wet'', ''dry'',
                      ''atmosphere'', ''depth'']"

definition VOLUME_KEYWORDS :: "string list" where
  "VOLUME_KEYWORDS = [''volume'', ''level'', ''loud'', ''quiet'', ''gain'', ''boost'', ''cut'',
                      ''turn up'', ''turn down'', ''louder'', ''softer'']"

definition MASTER_KEYWORDS :: "string list" where
  "MASTER_KEYWORDS = [''master'', ''mastering'', ''finalize'', ''polish'', ''streaming'',
                      ''spotify'', ''release'', ''final'']"

definition STYLE_KEYWORDS :: "string list" where
  "STYLE_KEYWORDS = [''style'', ''genre'', ''vibe'', ''feel'', ''mood'', ''sound like'',
                     ''similar to'', ''remake'', ''reimagine'', ''version'']"

definition WIDTH_KEYWORDS :: "string list" where
  "WIDTH_KEYWORDS = [''stereo'', ''width'', ''wide'', ''narrow'', ''mono'', ''spread'']"

definition parse_eq :: "string \<Rightarrow> eq_params" where
  "parse_eq prompt =
     (let p0 = \<lparr>bass = 0, mid = 0, treble = 0\<rparr>;
          p1 = (if py_in ''more bass'' prompt \<or> py_in ''boost bass'' prompt \<or> py_in ''add bass'' prompt
                then p0\<lparr>bass := 4\<rparr>
                else if py_in ''less bass'' prompt \<or> py_in ''cut bass'' prompt \<or> py_in ''reduce bass'' prompt
                then p0\<lparr>bass := - 4\<rparr>
                else if py_in ''warm'' prompt
                then p0\<lparr>bass := 2, treble := - 1\<rparr>
                else p0);
          p2 = (if py_in ''more treble'' prompt \<or> py_in ''brighter'' prompt \<or> py_in ''crisp'' prompt
                   \<or> py_in ''bright'' prompt
                then p1\<lparr>treble := 3\<rparr>
                else if py_in ''less treble'' prompt \<or> py_in ''dark'' prompt \<or> py_in ''darker'' prompt
                then p1\<lparr>treble := - 3\<rparr>
                else p1);
          p3 = (if py_in ''more mids'' prompt \<or> py_in ''boost mids'' prompt
                then p2\<lparr>mid := 3\<rparr>
                else if py_in ''less mids'' prompt \<or> py_in ''scoop'' prompt \<or> py_in ''scooped'' prompt
                then p2\<lparr>mid := - 4\<rparr>
                else if py_in ''muddy'' prompt \<or> py_in ''clear'' prompt
                then p2\<lparr>mid := - 2, treble := 2\<rparr>
                else p2)
      in p3)"

definition parse_compression :: "string \<Rightarrow> compression_params" where
  "parse_compression prompt =
     (let p0 = \<lparr>threshold = - 20, ratio = 4, attack = 5, release = 50\<rparr>
      in if py_in ''heavy'' prompt \<or> py_in ''squash'' prompt
         then p0\<lparr>ratio := 8, threshold := - 25\<rparr>
         else if py_in ''light'' prompt \<or> py_in ''gentle'' prompt
         then p0\<lparr>ratio := 2, threshold := - 15\<rparr>
         else if py_in ''punch'' prompt \<or> py_in ''punchy'' prompt
         then p0\<lparr>attack := 20, ratio := 4\<rparr>
         else if py_in ''glue'' prompt
         then p0\<lparr>ratio := 2, threshold := - 10\<rparr>
         else p0)"

definition parse_reverb :: "string \<Rightarrow> reverb_params" where
  "parse_reverb prompt =
     (let p0 = \<lparr>room_size = 5 / 10, damping = 5 / 10, wet = 3 / 10\<rparr>;
          p1 = (if py_in ''hall'' prompt \<or> py_in ''large'' prompt \<or> py_in ''big'' prompt
                then p0\<lparr>room_size := 9 / 10, wet := 4 / 10\<rparr>
                else if py_in ''room'' prompt \<or> py_in ''small'' prompt
                then p0\<lparr>room_size := 3 / 10, wet := 2 / 10\<rparr>
                else if py_in ''plate'' prompt
                then p0\<lparr>room_size := 6 / 10, damping := 3 / 10\<rparr>
                else p0);
          p2 = (if py_in ''wet'' prompt \<or> py_in ''lots of'' prompt \<or> py_in ''more reverb'' prompt
                then p1\<lparr>wet := 5 / 10\<rparr>
                else if py_in ''dry'' prompt \<or> py_in ''subtle'' prompt \<or> py_in ''less reverb'' prompt
                then p1\<lparr>wet := 15 / 100\<rparr>
                else p1)
      in p2)"

definition parse_volume :: "string \<Rightarrow> volume_params" where
  "parse_volume prompt =
     (let p0 = \<lparr>db = 0\<rparr>;
          p1 = (if py_in ''louder'' prompt \<or> py_in ''turn up'' prompt \<or> py_in ''boost'' prompt
                then p0\<lparr>db := 3\<rparr>
                else if py_in ''quieter'' prompt \<or> py_in ''turn down'' prompt \<or> py_in ''reduce'' prompt
                then p0\<lparr>db := - 3\<rparr>
                else if py_in ''much louder'' prompt
                then p0\<lparr>db := 6\<rparr>
                else if py_in ''much quieter'' prompt
                then p0\<lparr>db := - 6\<rparr>
                else p0)
      in case re_search_db prompt of
           Some g \<Rightarrow> p1\<lparr>db := py_int g\<rparr>
         | None \<Rightarrow> p1)"

definition parse_width :: "string \<Rightarrow> width_params" where
  "parse_width prompt =
     (let p0 = \<lparr>width = 1\<rparr>
      in if py_in ''wider'' prompt \<or> py_in ''spread'' prompt \<or> py_in ''wide'' prompt
         then p0\<lparr>width := 15 / 10\<rparr>
         else if py_in ''narrow'' prompt \<or> py_in ''mono'' prompt \<or> py_in ''centered'' prompt
         then p0\<lparr>width := 5 / 10\<rparr>
         else if py_in ''very wide'' prompt
         then p0\<lparr>width := 2\<rparr>
         else p0)"

text \<open>
  The dictionary returned by \<^verbatim>\<open>PromptParser.parse\<close>; the key \<^verbatim>\<open>style_prompt\<close> is present only
  when a style keyword matched.
\<close>

record parse_result =
  original :: string
  operations :: "operation list"
  requires_suno :: bool
  requires_audio_processing :: bool
  style_prompt :: "string option"

text \<open>
  One family block of \<^verbatim>\<open>parse\<close>: append the family's operation and raise the flag. In the
  EQ block the test \<^verbatim>\<open>if eq_params\<close> is on a dictionary of three keys, which is never
  empty, so the block always appends.
\<close>

definition emit :: "operation \<Rightarrow> parse_result \<Rightarrow> parse_result" where
  "emit op r = r\<lparr>operations := operations r @ [op], requires_audio_processing := True\<rparr>"

definition parse :: "string \<Rightarrow> parse_result" where
  "parse prompt =
     (let prompt_lower = lower prompt;
          r0 = \<lparr>original = prompt, operations = [], requires_suno = False,
                requires_audio_processing = False, style_prompt = None\<rparr>;
          r1 = (if any_in EQ_KEYWORDS prompt_lower
                then emit (Op_eq (parse_eq prompt_lower)) r0 else r0);
          r2 = (if any_in COMPRESSION_KEYWORDS prompt_lower
                then emit (Op_compression (parse_compression prompt_lower)) r1 else r1);
          r3 = (if any_in REVERB_KEYWORDS prompt_lower
                then emit (Op_reverb (parse_reverb prompt_lower)) r2 else r2);
          r4 = (if any_in VOLUME_KEYWORDS prompt_lower
                then emit (Op_volume (parse_volume prompt_lower)) r3 else r3);
          r5 = (if any_in WIDTH_KEYWORDS prompt_lower
                then emit (Op_stereo_width (parse_width prompt_lower)) r4 else r4);
          r6 = (if any_in MASTER_KEYWORDS prompt_lower
                then emit Op_master r5 else r5);
          r7 = (if any_in STYLE_KEYWORDS prompt_lower
                then r6\<lparr>requires_suno := True, style_prompt := Some prompt\<rparr> else r6)
      in r7)"

section \<open>Number formatting\<close>

definition digit_char :: "nat \<Rightarrow> char" where
  "digit_char d = char_of (48 + d)"

text \<open>The decimal digits of a natural number, most significant first.\<close>

function dec :: "nat \<Rightarrow> string" where
  "dec n = (if n < 10 then [digit_char n] else dec (n div 10) @ [digit_char (n mod 10)])"
  by pat_completeness auto
termination
  by (relation "measure (\<lambda>n. n)") auto

declare dec.simps [simp del]

definition zpad :: "nat \<Rightarrow> string \<Rightarrow> string" where
  "zpad w s = replicate (w - length s) (CHR ''0'') @ s"

text \<open>\<^verbatim>\<open>f"{v:03d}"\<close>: zero padding to width three, the sign counted in the width.\<close>

definition fmt_03d :: "int \<Rightarrow> string" where
  "fmt_03d v = (if v < 0 then CHR ''-'' # zpad 2 (dec (nat (- v))) else zpad 3 (dec (nat v)))"

text \<open>\<^verbatim>\<open>f"{v}"\<close> for an integer.\<close>

definition str_int :: "int \<Rightarrow> string" where
  "str_int v = (if v < 0 then CHR ''-'' # dec (nat (- v)) else dec (nat v))"

text \<open>\<^verbatim>\<open>",".join(filters)\<close>\<close>

fun join_comma :: "string list \<Rightarrow> string" where
  "join_comma [] = []"
| "join_comma [f] = f"
| "join_comma (f # g # fs) = f @ '','' @ join_comma (g # fs)"

section \<open>The audio processor\<close>

text \<open>
  Every method of \<^verbatim>\<open>AudioProcessor\<close> runs
  \<^verbatim>\<open>ffmpeg -y -i input_file -af filter_str output_file\<close> through \<^verbatim>\<open>subprocess.run\<close> and
  reports whether the return code was zero. The external program is a parameter \<open>engine\<close>
  of the model: for a command it either yields a return code, or \<^verbatim>\<open>subprocess.run\<close> raises
  (as it does when the program cannot be started; \<^verbatim>\<open>start_session\<close> only warns about a
  missing ffmpeg). No method catches the exception, so a method either raises or returns
  its verdict; the commands handed to \<^verbatim>\<open>subprocess.run\<close> are returned next to it. Filter
  texts built from integers are rendered; the reverb and stereo filters are computed from
  floating-point arguments and are kept as the arguments the method received.
\<close>

datatype py_error = AttributeError | FileNotFoundError | OSError

datatype af =
  Af_text string
| Af_aecho rat rat rat
| Af_stereotools rat

record ffmpeg_cmd =
  cmd_input :: string
  cmd_af :: af
  cmd_output :: string

type_synonym engine = "ffmpeg_cmd \<Rightarrow> py_error + int"

type_synonym verdict = "py_error + bool"

definition run_ffmpeg :: "engine \<Rightarrow> string \<Rightarrow> af \<Rightarrow> string \<Rightarrow> verdict \<times> ffmpeg_cmd list" where
  "run_ffmpeg engine input_file flt output_file =
     (let cmd = \<lparr>cmd_input = input_file, cmd_af = flt, cmd_output = output_file\<rparr>
      in (case engine cmd of
            Inl e \<Rightarrow> (Inl e, [cmd])
          | Inr returncode \<Rightarrow> (Inr (returncode = 0), [cmd])))"

definition apply_eq ::
  "engine \<Rightarrow> string \<Rightarrow> string \<Rightarrow> int \<Rightarrow> int \<Rightarrow> int \<Rightarrow> verdict \<times> ffmpeg_cmd list" where
  "apply_eq engine input_file output_file b m t =
     (let filters =
            (if b \<noteq> 0 then [''equalizer=f=100:t=q:w=1:g='' @ str_int b] else [])
          @ (if m \<noteq> 0 then [''equalizer=f=1000:t=q:w=1:g='' @ str_int m] else [])
          @ (if t \<noteq> 0 then [''equalizer=f=10000:t=q:w=1:g='' @ str_int t] else [])
      in if filters = [] then (Inr False, [])
         else run_ffmpeg engine input_file (Af_text (join_comma filters)) output_file)"

definition apply_compression ::
  "engine \<Rightarrow> string \<Rightarrow> string \<Rightarrow> compression_params \<Rightarrow> verdict \<times> ffmpeg_cmd list" where
  "apply_compression engine input_file output_file p =
     run_ffmpeg engine input_file
       (Af_text (''acompressor=threshold='' @ str_int (threshold p) @ ''dB:ratio='' @ str_int (ratio p)
                 @ '':attack='' @ str_int (attack p) @ '':release='' @ str_int (release p)))
       output_file"

definition apply_reverb ::
  "engine \<Rightarrow> string \<Rightarrow> string \<Rightarrow> reverb_params \<Rightarrow> verdict \<times> ffmpeg_cmd list" where
  "apply_reverb engine input_file output_file p =
     run_ffmpeg engine input_file (Af_aecho (room_size p) (damping p) (wet p)) output_file"

definition adjust_volume :: "engine \<Rightarrow> string \<Rightarrow> string \<Rightarrow> int \<Rightarrow> verdict \<times> ffmpeg_cmd list" where
  "adjust_volume engine input_file output_file d =
     run_ffmpeg engine input_file (Af_text (''volume='' @ str_int d @ ''dB'')) output_file"

definition stereo_width :: "engine \<Rightarrow> string \<Rightarrow> string \<Rightarrow> rat \<Rightarrow> verdict \<times> ffmpeg_cmd list" where
  "stereo_width engine input_file output_file w =
     run_ffmpeg engine input_file (Af_stereotools w) output_file"

definition chain_effects ::
  "engine \<Rightarrow> string \<Rightarrow> string \<Rightarrow> string list \<Rightarrow> verdict \<times> ffmpeg_cmd list" where
  "chain_effects engine input_file output_file filters =
     (if filters = [] then (Inr False, [])
      else run_ffmpeg engine input_file (Af_text (join_comma filters)) output_file)"

section \<open>The mixing session\<close>

text \<open>
  A history entry as \<^verbatim>\<open>add_action\<close> writes it. The \<^verbatim>\<open>timestamp\<close> key (the wall clock) is
  left out; \<open>h_params\<close> holds the operation whose parameters were recorded.
\<close>

record history_record =
  h_action :: string
  h_params :: operation
  h_result :: string
  h_version :: int

text \<open>The contents of \<^verbatim>\<open>session.json\<close>.\<close>

record saved_state =
  saved_history :: "history_record list"
  saved_current_file :: "string option"
  saved_version :: int

record mix_session =
  name :: string
  session_dir :: string
  history :: "history_record list"
  current_file :: "string option"
  version :: int
  stored :: "saved_state option"

definition save_session :: "mix_session \<Rightarrow> mix_session" where
  "save_session s =
     s\<lparr>stored := Some \<lparr>saved_history = history s, saved_current_file = current_file s,
                        saved_version = version s\<rparr>\<rparr>"

definition add_action :: "mix_session \<Rightarrow> string \<Rightarrow> operation \<Rightarrow> string \<Rightarrow> mix_session" where
  "add_action s action params result =
     save_session
       (s\<lparr>history := history s @ [\<lparr>h_action = action, h_params = params, h_result = result,
                                    h_version = version s\<rparr>]\<rparr>)"

text \<open>\<^verbatim>\<open>MixSession.set_source\<close>\<close>

definition session_set_source :: "mix_session \<Rightarrow> string \<Rightarrow> mix_session" where
  "session_set_source s file_path = save_session (s\<lparr>current_file := Some file_path, version := 0\<rparr>)"

text \<open>\<^verbatim>\<open>get_versioned_path\<close> advances the counter and returns the path built from the new value.\<close>

definition get_versioned_path :: "mix_session \<Rightarrow> string \<Rightarrow> string \<times> mix_session" where
  "get_versioned_path s suffix =
     (let s' = s\<lparr>version := version s + 1\<rparr>;
          nm = ''v'' @ fmt_03d (version s') @ suffix @ ''.wav''
      in (session_dir s' @ ''/'' @ nm, s'))"

section \<open>The mix engineer\<close>

text \<open>The five filters of the mastering chain, as the \<^verbatim>\<open>master\<close> branch lists them.\<close>

definition master_filters :: "string list" where
  "master_filters =
     [''highpass=f=30'',
      ''acompressor=threshold=-18dB:ratio=3:attack=10:release=100'',
      ''equalizer=f=100:t=q:w=1:g=1,equalizer=f=10000:t=q:w=1:g=1.5'',
      ''alimiter=limit=-1dB:level=false'',
      ''loudnorm=I=-14:TP=-1.5:LRA=11'']"

text \<open>
  The lines collected in \<^verbatim>\<open>results\<close>, kept as values instead of rendered text, and the
  replies of \<^verbatim>\<open>process_prompt\<close>: the two precondition messages, the list of example
  phrasings, or the summary (number of operations, lines, version, current file).
\<close>

datatype line =
  Line_eq int int int
| Line_compression int int
| Line_reverb rat rat
| Line_volume int
| Line_width rat
| Line_master
| Line_failed string
| Line_style_requested
| Line_style_prompt string
| Line_style_hint

datatype reply =
  No_session
| No_source
| Suggest
| Applied nat "line list" int "string option"

text \<open>
  The variables of the loop of \<^verbatim>\<open>process_prompt\<close>: the session, the local \<^verbatim>\<open>current_file\<close>
  and \<^verbatim>\<open>results\<close>. Three traces record what the loop did to the outside: the commands
  given to the engine, the paths obtained from \<^verbatim>\<open>get_versioned_path\<close>, and the value of
  \<^verbatim>\<open>success\<close> of every operation that got one. \<open>ls_raised\<close> is the exception in flight
  once an engine call has raised: the session object has been changed in place up to that
  point, and the loop is left.
\<close>

record loop_state =
  ls_session :: mix_session
  ls_current :: string
  ls_results :: "line list"
  ls_calls :: "ffmpeg_cmd list"
  ls_slots :: "string list"
  ls_outcomes :: "bool list"
  ls_raised :: "py_error option"

text \<open>
  The branch on \<^verbatim>\<open>op_type\<close>: the session after any further path request, the further
  paths, the engine verdict with its commands, and the summary line.
\<close>

fun dispatch ::
  "engine \<Rightarrow> mix_session \<Rightarrow> string \<Rightarrow> string \<Rightarrow> operation
     \<Rightarrow> mix_session \<times> string list \<times> (verdict \<times> ffmpeg_cmd list) \<times> line" where
  "dispatch engine s cur out (Op_eq p) =
     (s, [], apply_eq engine cur out (bass p) (mid p) (treble p),
      Line_eq (bass p) (mid p) (treble p))"
| "dispatch engine s cur out (Op_compression p) =
     (s, [], apply_compression engine cur out p, Line_compression (ratio p) (threshold p))"
| "dispatch engine s cur out (Op_reverb p) =
     (s, [], apply_reverb engine cur out p, Line_reverb (room_size p) (wet p))"
| "dispatch engine s cur out (Op_volume p) =
     (s, [], adjust_volume engine cur out (db p), Line_volume (db p))"
| "dispatch engine s cur out (Op_stereo_width p) =
     (s, [], stereo_width engine cur out (width p), Line_width (width p))"
| "dispatch engine s cur out Op_master =
     (let (temp_file, s') = get_versioned_path s ''_master_temp''
      in (s', [temp_file], chain_effects engine cur out master_filters, Line_master))"

text \<open>
  One iteration of the loop. The output path is requested first, then the branch runs the
  engine. If the engine call raises, nothing after it in the iteration happens: no summary
  line, no value of \<^verbatim>\<open>success\<close>, no history entry.
\<close>

definition process_op :: "engine \<Rightarrow> loop_state \<Rightarrow> operation \<Rightarrow> loop_state" where
  "process_op engine st op =
     (let (output_file, s1) = get_versioned_path (ls_session st) (''_'' @ op_type op);
          (s2, extra, (verdict, cmds), descr) = dispatch engine s1 (ls_current st) output_file op;
          st0 = st\<lparr>ls_session := s2,
                   ls_calls := ls_calls st @ cmds,
                   ls_slots := ls_slots st @ output_file # extra\<rparr>
      in case verdict of
           Inl e \<Rightarrow> st0\<lparr>ls_raised := Some e\<rparr>
         | Inr success \<Rightarrow>
             (let st1 = st0\<lparr>ls_results := ls_results st @ [descr],
                            ls_outcomes := ls_outcomes st @ [success]\<rparr>
              in if success
                 then st1\<lparr>ls_current := output_file,
                          ls_session := add_action (s2\<lparr>current_file := Some output_file\<rparr>)
                                          (op_type op) op ''success''\<rparr>
                 else st1\<lparr>ls_results := ls_results st1 @ [Line_failed (op_type op)]\<rparr>))"

text \<open>The loop over the operations; an exception ends it.\<close>

fun run_ops :: "engine \<Rightarrow> loop_state \<Rightarrow> operation list \<Rightarrow> loop_state" where
  "run_ops engine st [] = st"
| "run_ops engine st (op # ops) =
     (let st' = process_op engine st op
      in case ls_raised st' of
           Some e \<Rightarrow> st'
         | None \<Rightarrow> run_ops engine st' ops)"

text \<open>
  What a call of \<^verbatim>\<open>process_prompt\<close> leaves behind: the reply or the exception that left
  the call, the engineer's session and the three traces of the loop.
\<close>

record outcome =
  out_reply :: "py_error + reply"
  out_session :: "mix_session option"
  out_calls :: "ffmpeg_cmd list"
  out_slots :: "string list"
  out_outcomes :: "bool list"

definition init_loop :: "mix_session \<Rightarrow> string \<Rightarrow> loop_state" where
  "init_loop s cf = \<lparr>ls_session = s, ls_current = cf, ls_results = [], ls_calls = [],
                      ls_slots = [], ls_outcomes = [], ls_raised = None\<rparr>"

definition idle :: "reply \<Rightarrow> mix_session option \<Rightarrow> outcome" where
  "idle r eng = \<lparr>out_reply = Inr r, out_session = eng, out_calls = [], out_slots = [],
                 out_outcomes = []\<rparr>"

text \<open>
  \<^verbatim>\<open>MixEngineer.process_prompt\<close>; the engineer is its \<^verbatim>\<open>session\<close> attribute, \<open>None\<close> before
  \<^verbatim>\<open>start_session\<close>. An empty path counts as no source, as \<^verbatim>\<open>not current_file\<close> does. When
  an engine call raises, the exception leaves \<^verbatim>\<open>process_prompt\<close> from inside the loop: the
  style lines, the final \<^verbatim>\<open>save_session\<close> and the summary are not reached, and the session
  object stays as the loop left it. Writing \<^verbatim>\<open>session.json\<close> is taken to succeed.
\<close>

definition process_prompt :: "engine \<Rightarrow> mix_session option \<Rightarrow> string \<Rightarrow> outcome" where
  "process_prompt engine eng prompt =
     (case eng of
        None \<Rightarrow> idle No_session eng
      | Some s \<Rightarrow>
          (case current_file s of
             None \<Rightarrow> idle No_source eng
           | Some cf \<Rightarrow>
               if cf = [] then idle No_source eng
               else
                 let parsed = parse prompt
                 in if operations parsed = [] \<and> \<not> requires_suno parsed
                    then idle Suggest eng
                    else
                      let st = run_ops engine (init_loop s cf) (operations parsed)
                      in (case ls_raised st of
                            Some e \<Rightarrow>
                              \<lparr>out_reply = Inl e,
                               out_session = Some (ls_session st),
                               out_calls = ls_calls st,
                               out_slots = ls_slots st,
                               out_outcomes = ls_outcomes st\<rparr>
                          | None \<Rightarrow>
                              (let results = ls_results st
                                     @ (if requires_suno parsed
                                        then [Line_style_requested,
                                              Line_style_prompt
                                                (case style_prompt parsed of
                                                   Some sp \<Rightarrow> sp | None \<Rightarrow> prompt),
                                              Line_style_hint]
                                        else []);
                                   s' = save_session (ls_session st)
                               in \<lparr>out_reply = Inr (Applied (length (operations parsed)) results
                                                       (version s') (current_file s')),
                                   out_session = Some s',
                                   out_calls = ls_calls st,
                                   out_slots = ls_slots st,
                                   out_outcomes = ls_outcomes st\<rparr>))))"

text \<open>
  \<^verbatim>\<open>MixEngineer.set_source\<close>: \<open>file_exists\<close> answers \<^verbatim>\<open>os.path.exists\<close>. Without a session
  the attribute access on \<open>None\<close> raises. The display of the analysed audio is left out.
\<close>

definition set_source ::
  "(string \<Rightarrow> bool) \<Rightarrow> mix_session option \<Rightarrow> string \<Rightarrow> py_error + (bool \<times> mix_session option)" where
  "set_source file_exists eng file_path =
     (if \<not> file_exists file_path then Inr (False, eng)
      else case eng of
             None \<Rightarrow> Inl AttributeError
           | Some s \<Rightarrow> Inr (True, Some (session_set_source s file_path)))"

text \<open>
  \<^verbatim>\<open>MixEngineer.undo\<close>. The session directory is given by its entry names in the order the
  directory scan yields them; \<^verbatim>\<open>glob(f"v{prev_version:03d}*.wav")\<close> keeps the names that
  start with the formatted version and end, after it, with \<^verbatim>\<open>.wav\<close>, and the loop takes
  the first one.
\<close>

definition endswith :: "string \<Rightarrow> string \<Rightarrow> bool" where
  "endswith suf s = startswith (rev suf) (rev s)"

definition glob_match :: "string \<Rightarrow> string \<Rightarrow> string \<Rightarrow> bool" where
  "glob_match pre suf nm = (startswith pre nm \<and> endswith suf (drop (length pre) nm))"

datatype undo_reply =
  Nothing_to_undo
| Reverted int
| Could_not_find

definition undo ::
  "(string \<Rightarrow> bool) \<Rightarrow> string list \<Rightarrow> mix_session option \<Rightarrow> undo_reply \<times> mix_session option" where
  "undo file_exists entries eng =
     (case eng of
        None \<Rightarrow> (Nothing_to_undo, eng)
      | Some s \<Rightarrow>
          if version s < 2 then (Nothing_to_undo, eng)
          else
            let prev_version = version s - 1;
                prev_file =
                  (case filter (glob_match (''v'' @ fmt_03d prev_version) ''.wav'') entries of
                     [] \<Rightarrow> None
                   | f # fs \<Rightarrow> Some (session_dir s @ ''/'' @ f))
            in (case prev_file of
                  None \<Rightarrow> (Could_not_find, eng)
                | Some pf \<Rightarrow>
                    if pf \<noteq> [] \<and> file_exists pf
                    then (Reverted prev_version,
                          Some (save_session (s\<lparr>current_file := Some pf, version := prev_version\<rparr>)))
                    else (Could_not_find, eng)))"

text \<open>
  A run of the engineer: prompts, each with the behaviour of the engine during that call,
  and undo requests, each with the state of the file system it finds. The run collects
  every path that \<^verbatim>\<open>get_versioned_path\<close> returned. An exception that leaves
  \<^verbatim>\<open>process_prompt\<close> is caught and printed by the command loop, which goes on with the
  session object as it is.
\<close>

datatype event =
  Ev_prompt engine string
| Ev_undo "string \<Rightarrow> bool" "string list"

fun run_events :: "mix_session option \<Rightarrow> event list \<Rightarrow> string list \<times> mix_session option" where
  "run_events eng [] = ([], eng)"
| "run_events eng (Ev_prompt engine prompt # evs) =
     (let r = process_prompt engine eng prompt;
          (slots, eng') = run_events (out_session r) evs
      in (out_slots r @ slots, eng'))"
| "run_events eng (Ev_undo file_exists entries # evs) =
     run_events (snd (undo file_exists entries eng)) evs"

text \<open>
  Fixtures: an engine that always succeeds, one that always fails, one that cannot be
  started, and a fresh session.
\<close>

definition engine_ok :: engine where
  "engine_ok c = Inr 0"

definition engine_fail :: engine where
  "engine_fail c = Inr 1"

definition engine_missing :: engine where
  "engine_missing c = Inl FileNotFoundError"

definition all_exist :: "string \<Rightarrow> bool" where
  "all_exist f = True"

definition fresh :: mix_session where
  "fresh = \<lparr>name = ''demo'', session_dir = ''sessions/demo'', history = [],
            current_file = Some ''song.wav'', version = 0, stored = None\<rparr>"

section \<open>Reference notions used in the statements\<close>

text \<open>
  The six operation families in the order in which \<^verbatim>\<open>parse\<close> tests them, each with its
  keyword table, and the type tags of the families of which some keyword occurs in a text.
\<close>

definition families :: "(string \<times> string list) list" where
  "families =
     [(''eq'', EQ_KEYWORDS), (''compression'', COMPRESSION_KEYWORDS), (''reverb'', REVERB_KEYWORDS),
      (''volume'', VOLUME_KEYWORDS), (''stereo_width'', WIDTH_KEYWORDS), (''master'', MASTER_KEYWORDS)]"

fun matched :: "string \<Rightarrow> (string \<times> string list) list \<Rightarrow> string list" where
  "matched s [] = []"
| "matched s ((k, kws) # fs) = (if any_in kws s then k # matched s fs else matched s fs)"

text \<open>The operation a family contributes to the result: one if a keyword occurs, else none.\<close>

definition fam :: "string list \<Rightarrow> string \<Rightarrow> operation \<Rightarrow> operation list" where
  "fam kws s op = (if any_in kws s then [op] else [])"

text \<open>The phrases that \<^verbatim>\<open>_parse_eq\<close> looks for.\<close>

definition EQ_CUES :: "string list" where
  "EQ_CUES = [''more bass'', ''boost bass'', ''add bass'', ''less bass'', ''cut bass'', ''reduce bass'',
              ''warm'', ''more treble'', ''brighter'', ''crisp'', ''bright'', ''less treble'', ''dark'',
              ''darker'', ''more mids'', ''boost mids'', ''less mids'', ''scoop'', ''scooped'',
              ''muddy'', ''clear'']"

text \<open>
  The engine accepted a command: it ran and returned code zero. Checks on a trace of
  engine commands, given the file the loop started from: every command reads the output
  of the latest accepted command (or the starting file), and the file the trace ends on.
\<close>

definition accepted :: "engine \<Rightarrow> ffmpeg_cmd \<Rightarrow> bool" where
  "accepted engine c = (engine c = Inr 0)"

fun chained :: "engine \<Rightarrow> string \<Rightarrow> ffmpeg_cmd list \<Rightarrow> bool" where
  "chained engine cur [] = True"
| "chained engine cur (c # cs) =
     (cmd_input c = cur \<and> chained engine (if accepted engine c then cmd_output c else cur) cs)"

fun last_good :: "engine \<Rightarrow> string \<Rightarrow> ffmpeg_cmd list \<Rightarrow> string" where
  "last_good engine cur [] = cur"
| "last_good engine cur (c # cs) =
     last_good engine (if accepted engine c then cmd_output c else cur) cs"

text \<open>
  The operations for which a method of the audio processor hands a command to the engine:
  all but an EQ whose three gains are zero.
\<close>

fun needs_engine :: "operation \<Rightarrow> bool" where
  "needs_engine (Op_eq p) = (\<not> (bass p = 0 \<and> mid p = 0 \<and> treble p = 0))"
| "needs_engine op = True"

fun is_failure_note :: "line \<Rightarrow> bool" where
  "is_failure_note (Line_failed k) = True"
| "is_failure_note l = False"



definition two_done :: mix_session where
  "two_done = fresh\<lparr>current_file := Some ''sessions/demo/v002_eq.wav'', version := 2\<rparr>"

text \<open>
  A path that \<^verbatim>\<open>get_versioned_path\<close> builds in directory \<open>d\<close> for version \<open>k\<close> with a suffix
  that starts with an underscore, as every suffix passed by \<^verbatim>\<open>process_prompt\<close> does.
\<close>

definition is_slot :: "string \<Rightarrow> int \<Rightarrow> string \<Rightarrow> bool" where
  "is_slot d k p = (\<exists>r. p = d @ ''/'' @ ''v'' @ fmt_03d k @ CHR ''_'' # r)"

text \<open>No undo of the run reverted the session: each answered otherwise.\<close>

fun no_revert :: "mix_session option \<Rightarrow> event list \<Rightarrow> bool" where
  "no_revert eng [] = True"
| "no_revert eng (Ev_prompt engine prompt # evs) =
     no_revert (out_session (process_prompt engine eng prompt)) evs"
| "no_revert eng (Ev_undo file_exists entries # evs) =
     (case fst (undo file_exists entries eng) of
        Reverted v \<Rightarrow> False
      | Nothing_to_undo \<Rightarrow> no_revert (snd (undo file_exists entries eng)) evs
      | Could_not_find \<Rightarrow> no_revert (snd (undo file_exists entries eng)) evs)"

text \<open>Two runs from a fresh session, without and with an undo that reverts.\<close>

definition demo_run :: "event list" where
  "demo_run = [Ev_prompt engine_ok ''more bass'',
               Ev_undo all_exist [''session.json'', ''v001_eq.wav''],
               Ev_prompt engine_fail ''more bass'',
               Ev_prompt engine_ok ''more bass and master it'']"

definition undo_run :: "event list" where
  "undo_run = [Ev_prompt engine_ok ''more bass'',
               Ev_prompt engine_ok ''more bass'',
               Ev_undo all_exist [''session.json'', ''v001_eq.wav'', ''v002_eq.wav''],
               Ev_prompt engine_ok ''more bass'']"

section \<open>The parser\<close>

lemma lower_char_idem: "lower_char (lower_char c) = lower_char c"
  by (simp add: lower_char_def Let_def)

lemma lower_idem: "lower (lower t) = lower t"
  by (simp add: lower_def lower_char_idem)

lemma parse_operations:
  "operations (parse t) =
     fam EQ_KEYWORDS (lower t) (Op_eq (parse_eq (lower t)))
   @ fam COMPRESSION_KEYWORDS (lower t) (Op_compression (parse_compression (lower t)))
   @ fam REVERB_KEYWORDS (lower t) (Op_reverb (parse_reverb (lower t)))
   @ fam VOLUME_KEYWORDS (lower t) (Op_volume (parse_volume (lower t)))
   @ fam WIDTH_KEYWORDS (lower t) (Op_stereo_width (parse_width (lower t)))
   @ fam MASTER_KEYWORDS (lower t) Op_master"
  by (simp add: parse_def Let_def fam_def emit_def)

lemma parse_requires_suno: "requires_suno (parse t) = any_in STYLE_KEYWORDS (lower t)"
  by (simp add: parse_def Let_def emit_def)

lemma parse_requires_audio: "requires_audio_processing (parse t) = (operations (parse t) \<noteq> [])"
  by (simp add: parse_def Let_def emit_def)

lemma parse_original: "original (parse t) = t"
  by (simp add: parse_def Let_def emit_def)

lemma parse_style_prompt:
  "style_prompt (parse t) = (if any_in STYLE_KEYWORDS (lower t) then Some t else None)"
  by (simp add: parse_def Let_def emit_def)

lemma parse_eq_no_cue:
  assumes "\<not> any_in EQ_CUES s"
  shows "parse_eq s = \<lparr>bass = 0, mid = 0, treble = 0\<rparr>"
  using assms by (simp add: EQ_CUES_def parse_eq_def)

text \<open>
  C3. The claim expects \<^verbatim>\<open>parse("turn it down 7db")\<close> to be a volume operation of -7 dB.
  Evaluated on the code, the text matches no volume keyword (\<^verbatim>\<open>turn down\<close> is not a
  substring of \<^verbatim>\<open>turn it down\<close>), so no operation is produced at all; the volume rule
  itself, applied to this text, reads the unsigned token and gives +7, and the nearby
  text \<^verbatim>\<open>turn down 7db\<close> is parsed as a volume change of +7 dB.
\<close>

theorem turn_it_down_7db_evaluated:
  "operations (parse ''turn it down 7db'') = []
   \<and> any_in VOLUME_KEYWORDS (lower ''turn it down 7db'') = False
   \<and> parse_volume (lower ''turn it down 7db'') = \<lparr>db = 7\<rparr>
   \<and> operations (parse ''turn down 7db'') = [Op_volume \<lparr>db = 7\<rparr>]"
  by code_simp

text \<open>
  C6. The type tags of the operations returned by \<^verbatim>\<open>parse\<close> are the tags of the matching
  families, in the fixed order eq, compression, reverb, volume, stereo width, master,
  whatever the position of the phrases in the text; the two example sentences, which
  differ only in phrase order, both give the treble boost of 3 followed by the default
  reverb.
\<close>

theorem parse_family_order:
  "map op_type (operations (parse t)) = matched (lower t) families
   \<and> operations (parse ''make it brighter and add some reverb'')
       = [Op_eq \<lparr>bass = 0, mid = 0, treble = 3\<rparr>,
          Op_reverb \<lparr>room_size = 5 / 10, damping = 5 / 10, wet = 3 / 10\<rparr>]
   \<and> operations (parse ''add some reverb and make it brighter'')
       = [Op_eq \<lparr>bass = 0, mid = 0, treble = 3\<rparr>,
          Op_reverb \<lparr>room_size = 5 / 10, damping = 5 / 10, wet = 3 / 10\<rparr>]"
proof (intro conjI)
  show "map op_type (operations (parse t)) = matched (lower t) families"
    by (simp add: parse_operations fam_def families_def)
  show "operations (parse ''make it brighter and add some reverb'')
       = [Op_eq \<lparr>bass = 0, mid = 0, treble = 3\<rparr>,
          Op_reverb \<lparr>room_size = 5 / 10, damping = 5 / 10, wet = 3 / 10\<rparr>]"
    by code_simp
  show "operations (parse ''add some reverb and make it brighter'')
       = [Op_eq \<lparr>bass = 0, mid = 0, treble = 3\<rparr>,
          Op_reverb \<lparr>room_size = 5 / 10, damping = 5 / 10, wet = 3 / 10\<rparr>]"
    by code_simp
qed

text \<open>
  C8. If no keyword of the six operation families and no style keyword occurs in the
  lower-cased text, \<^verbatim>\<open>parse\<close> returns no operation and leaves both flags false, and
  \<^verbatim>\<open>process_prompt\<close>, called on a session that has a source, answers with the list of
  example phrasings and changes nothing.
\<close>

theorem no_keyword_is_ambiguous:
  assumes "\<not> any_in EQ_KEYWORDS (lower t)" and "\<not> any_in COMPRESSION_KEYWORDS (lower t)"
    and "\<not> any_in REVERB_KEYWORDS (lower t)" and "\<not> any_in VOLUME_KEYWORDS (lower t)"
    and "\<not> any_in WIDTH_KEYWORDS (lower t)" and "\<not> any_in MASTER_KEYWORDS (lower t)"
    and "\<not> any_in STYLE_KEYWORDS (lower t)"
    and "current_file s = Some cf" and "cf \<noteq> []"
  shows "operations (parse t) = []
         \<and> \<not> requires_audio_processing (parse t)
         \<and> \<not> requires_suno (parse t)
         \<and> process_prompt engine (Some s) t = idle Suggest (Some s)"
  using assms
  by (simp add: parse_operations fam_def parse_requires_audio parse_requires_suno
      process_prompt_def)

theorem no_keyword_is_ambiguous_witness:
  "\<not> any_in EQ_KEYWORDS (lower ''hello there'')
   \<and> \<not> any_in COMPRESSION_KEYWORDS (lower ''hello there'')
   \<and> \<not> any_in REVERB_KEYWORDS (lower ''hello there'')
   \<and> \<not> any_in VOLUME_KEYWORDS (lower ''hello there'')
   \<and> \<not> any_in WIDTH_KEYWORDS (lower ''hello there'')
   \<and> \<not> any_in MASTER_KEYWORDS (lower ''hello there'')
   \<and> \<not> any_in STYLE_KEYWORDS (lower ''hello there'')
   \<and> current_file fresh = Some ''song.wav'' \<and> ''song.wav'' \<noteq> []
   \<and> operations (parse ''hello there'') = []
   \<and> \<not> requires_audio_processing (parse ''hello there'')
   \<and> \<not> requires_suno (parse ''hello there'')
   \<and> process_prompt engine_ok (Some fresh) ''hello there'' = idle Suggest (Some fresh)"
proof -
  have k1: "\<not> any_in EQ_KEYWORDS (lower ''hello there'')" by code_simp
  have k2: "\<not> any_in COMPRESSION_KEYWORDS (lower ''hello there'')" by code_simp
  have k3: "\<not> any_in REVERB_KEYWORDS (lower ''hello there'')" by code_simp
  have k4: "\<not> any_in VOLUME_KEYWORDS (lower ''hello there'')" by code_simp
  have k5: "\<not> any_in WIDTH_KEYWORDS (lower ''hello there'')" by code_simp
  have k6: "\<not> any_in MASTER_KEYWORDS (lower ''hello there'')" by code_simp
  have k7: "\<not> any_in STYLE_KEYWORDS (lower ''hello there'')" by code_simp
  have c: "current_file fresh = Some ''song.wav''" by (simp add: fresh_def)
  have d: "''song.wav'' \<noteq> []" by simp
  show ?thesis
    using k1 k2 k3 k4 k5 k6 k7 c d
      no_keyword_is_ambiguous [OF k1 k2 k3 k4 k5 k6 k7 c d, of engine_ok]
    by simp
qed

text \<open>
  C9. Classification ignores case: \<^verbatim>\<open>parse(t)\<close> and \<^verbatim>\<open>parse(t.lower())\<close> have the same
  operation list and the same two flags; the given text itself is kept only in
  \<^verbatim>\<open>original\<close> and, when a style keyword matched, in \<^verbatim>\<open>style_prompt\<close>.
\<close>

theorem parse_case_insensitive:
  "operations (parse t) = operations (parse (lower t))
   \<and> requires_audio_processing (parse t) = requires_audio_processing (parse (lower t))
   \<and> requires_suno (parse t) = requires_suno (parse (lower t))
   \<and> original (parse t) = t
   \<and> style_prompt (parse t) = (if requires_suno (parse t) then Some t else None)"
  by (simp add: parse_operations parse_requires_audio parse_requires_suno parse_original
      parse_style_prompt lower_idem)

text \<open>
  C10. A text with a keyword of the EQ family and none of the phrases \<^verbatim>\<open>_parse_eq\<close> looks
  for still yields, as its first operation, an EQ with all three gains zero; \<^verbatim>\<open>apply_eq\<close>
  with three zero gains reports failure without giving any command to the engine, so the
  loop of \<^verbatim>\<open>process_prompt\<close> records the operation as failed and runs no filter for it.
\<close>

theorem eq_keyword_without_cue:
  assumes "any_in EQ_KEYWORDS (lower t)" and "\<not> any_in EQ_CUES (lower t)"
  shows "take 1 (operations (parse t)) = [Op_eq \<lparr>bass = 0, mid = 0, treble = 0\<rparr>]
         \<and> apply_eq engine input_file output_file 0 0 0 = (Inr False, [])
         \<and> ls_calls (process_op engine st (Op_eq \<lparr>bass = 0, mid = 0, treble = 0\<rparr>)) = ls_calls st
         \<and> ls_outcomes (process_op engine st (Op_eq \<lparr>bass = 0, mid = 0, treble = 0\<rparr>))
             = ls_outcomes st @ [False]
         \<and> ls_raised (process_op engine st (Op_eq \<lparr>bass = 0, mid = 0, treble = 0\<rparr>))
             = ls_raised st"
proof (intro conjI)
  show "take 1 (operations (parse t)) = [Op_eq \<lparr>bass = 0, mid = 0, treble = 0\<rparr>]"
    using assms by (simp add: parse_operations fam_def parse_eq_no_cue)
  show "apply_eq engine input_file output_file 0 0 0 = (Inr False, [])"
    by (simp add: apply_eq_def)
  show "ls_calls (process_op engine st (Op_eq \<lparr>bass = 0, mid = 0, treble = 0\<rparr>)) = ls_calls st"
    by (simp add: process_op_def get_versioned_path_def Let_def apply_eq_def)
  show "ls_outcomes (process_op engine st (Op_eq \<lparr>bass = 0, mid = 0, treble = 0\<rparr>))
             = ls_outcomes st @ [False]"
    by (simp add: process_op_def get_versioned_path_def Let_def apply_eq_def)
  show "ls_raised (process_op engine st (Op_eq \<lparr>bass = 0, mid = 0, treble = 0\<rparr>))
             = ls_raised st"
    by (simp add: process_op_def get_versioned_path_def Let_def apply_eq_def)
qed

theorem eq_keyword_without_cue_witness:
  "any_in EQ_KEYWORDS (lower ''frequency'') \<and> \<not> any_in EQ_CUES (lower ''frequency'')
   \<and> take 1 (operations (parse ''frequency'')) = [Op_eq \<lparr>bass = 0, mid = 0, treble = 0\<rparr>]
   \<and> apply_eq engine_ok ''song.wav'' ''out.wav'' 0 0 0 = (Inr False, [])
   \<and> ls_calls (process_op engine_ok (init_loop fresh ''song.wav'')
                 (Op_eq \<lparr>bass = 0, mid = 0, treble = 0\<rparr>)) = []
   \<and> ls_outcomes (process_op engine_ok (init_loop fresh ''song.wav'')
                    (Op_eq \<lparr>bass = 0, mid = 0, treble = 0\<rparr>)) = [False]"
proof -
  have a: "any_in EQ_KEYWORDS (lower ''frequency'')" by code_simp
  have b: "\<not> any_in EQ_CUES (lower ''frequency'')" by code_simp
  show ?thesis
    using a b
      eq_keyword_without_cue [OF a b, of engine_ok "''song.wav''" "''out.wav''"
        "init_loop fresh ''song.wav''"]
    by (simp add: init_loop_def)
qed

section \<open>The loop of process_prompt\<close>

lemma process_op_version:
  "version (ls_session (process_op engine st op))
     = version (ls_session st) + (if op = Op_master then 2 else 1)"
  by (cases op)
     (simp_all add: process_op_def get_versioned_path_def Let_def add_action_def save_session_def
        split: prod.splits sum.splits)

lemma process_op_session_dir:
  "session_dir (ls_session (process_op engine st op)) = session_dir (ls_session st)"
  by (cases op)
     (simp_all add: process_op_def get_versioned_path_def Let_def add_action_def save_session_def
        split: prod.splits sum.splits)

text \<open>
  What one iteration does to the outcomes and the history: nothing if the engine call
  raised, else one outcome, and one entry if it is a success.
\<close>

lemma process_op_split:
  assumes "ls_raised st = None"
  shows "(ls_raised (process_op engine st op) \<noteq> None
          \<and> ls_outcomes (process_op engine st op) = ls_outcomes st
          \<and> history (ls_session (process_op engine st op)) = history (ls_session st))
       \<or> (ls_raised (process_op engine st op) = None
          \<and> (\<exists>b. ls_outcomes (process_op engine st op) = ls_outcomes st @ [b]
                \<and> history (ls_session (process_op engine st op))
                    = history (ls_session st)
                      @ (if b
                         then [\<lparr>h_action = op_type op, h_params = op, h_result = ''success'',
                                h_version = version (ls_session (process_op engine st op))\<rparr>]
                         else [])))"
  using assms
  by (cases op)
     (auto simp: process_op_def get_versioned_path_def Let_def add_action_def save_session_def
        split: prod.splits sum.splits)

lemma process_op_step:
  assumes "ls_raised st = None"
  shows "\<exists>bs. ls_outcomes (process_op engine st op) = ls_outcomes st @ bs
     \<and> length bs = (if ls_raised (process_op engine st op) = None then 1 else 0)
     \<and> history (ls_session (process_op engine st op))
         = history (ls_session st)
           @ (if True \<in> set bs
              then [\<lparr>h_action = op_type op, h_params = op, h_result = ''success'',
                     h_version = version (ls_session (process_op engine st op))\<rparr>]
              else [])"
proof -
  let ?st1 = "process_op engine st op"
  let ?rec = "\<lparr>h_action = op_type op, h_params = op, h_result = ''success'',
               h_version = version (ls_session ?st1)\<rparr>"
  consider (raised) "ls_raised ?st1 \<noteq> None" "ls_outcomes ?st1 = ls_outcomes st"
      "history (ls_session ?st1) = history (ls_session st)"
    | (verdict) b where "ls_raised ?st1 = None" "ls_outcomes ?st1 = ls_outcomes st @ [b]"
      "history (ls_session ?st1) = history (ls_session st) @ (if b then [?rec] else [])"
    using process_op_split [OF assms, of engine op] by blast
  then show ?thesis
  proof cases
    case raised
    then have "ls_outcomes ?st1 = ls_outcomes st @ []
        \<and> length ([] :: bool list) = (if ls_raised ?st1 = None then 1 else 0)
        \<and> history (ls_session ?st1)
            = history (ls_session st) @ (if True \<in> set [] then [?rec] else [])"
      by simp
    then show ?thesis by blast
  next
    case (verdict b)
    then have "ls_outcomes ?st1 = ls_outcomes st @ [b]
        \<and> length [b] = (if ls_raised ?st1 = None then 1 else 0)
        \<and> history (ls_session ?st1)
            = history (ls_session st) @ (if True \<in> set [b] then [?rec] else [])"
      by auto
    then show ?thesis by blast
  qed
qed

lemma process_op_stored:
  assumes "ls_raised st = None"
    and "True \<notin> set (drop (length (ls_outcomes st)) (ls_outcomes (process_op engine st op)))"
  shows "stored (ls_session (process_op engine st op)) = stored (ls_session st)"
  using assms
  by (cases op)
     (auto simp: process_op_def get_versioned_path_def Let_def add_action_def save_session_def
        split: prod.splits sum.splits if_splits)

lemma run_ops_outcomes:
  assumes "ls_raised st = None"
  shows "\<exists>bs. ls_outcomes (run_ops engine st ops) = ls_outcomes st @ bs
      \<and> (ls_raised (run_ops engine st ops) = None \<longrightarrow> length bs = length ops)
      \<and> (ls_raised (run_ops engine st ops) \<noteq> None \<longrightarrow> length bs < length ops)"
  using assms
proof (induction ops arbitrary: st)
  case Nil
  then show ?case by simp
next
  case (Cons op ops)
  let ?st1 = "process_op engine st op"
  obtain bs where bs: "ls_outcomes ?st1 = ls_outcomes st @ bs"
    "length bs = (if ls_raised ?st1 = None then 1 else 0)"
    using process_op_step [OF Cons.prems] by blast
  show ?case
  proof (cases "ls_raised ?st1")
    case (Some e)
    then show ?thesis using bs by simp
  next
    case None
    obtain cs where cs: "ls_outcomes (run_ops engine ?st1 ops) = ls_outcomes ?st1 @ cs"
      "ls_raised (run_ops engine ?st1 ops) = None \<longrightarrow> length cs = length ops"
      "ls_raised (run_ops engine ?st1 ops) \<noteq> None \<longrightarrow> length cs < length ops"
      using Cons.IH [OF None] by (elim exE conjE) (rule that)
    show ?thesis
      by (rule exI [of _ "bs @ cs"]) (use None bs cs in simp)
  qed
qed

lemma run_ops_version:
  assumes "Op_master \<notin> set ops" and "ls_raised st = None"
  shows "version (ls_session (run_ops engine st ops)) + int (length (ls_outcomes st))
     = version (ls_session st) + int (length (ls_outcomes (run_ops engine st ops)))
       + (if ls_raised (run_ops engine st ops) = None then 0 else 1)"
  using assms
proof (induction ops arbitrary: st)
  case Nil
  then show ?case by simp
next
  case (Cons op ops)
  let ?st1 = "process_op engine st op"
  obtain bs where bs: "ls_outcomes ?st1 = ls_outcomes st @ bs"
    "length bs = (if ls_raised ?st1 = None then 1 else 0)"
    using process_op_step [OF Cons.prems(2)] by blast
  have v: "version (ls_session ?st1) = version (ls_session st) + 1"
    using Cons.prems(1) by (auto simp: process_op_version)
  show ?case
  proof (cases "ls_raised ?st1")
    case (Some e)
    then show ?thesis using bs v by simp
  next
    case None
    have "Op_master \<notin> set ops" using Cons.prems(1) by simp
    then show ?thesis using Cons.IH [OF _ None] None bs v by simp
  qed
qed

lemma run_ops_history:
  assumes "ls_raised st = None"
  shows "\<exists>recs. history (ls_session (run_ops engine st ops)) = history (ls_session st) @ recs
      \<and> length recs
          = length (filter id (drop (length (ls_outcomes st)) (ls_outcomes (run_ops engine st ops))))
      \<and> list_all (\<lambda>h. h_result h = ''success'') recs"
  using assms
proof (induction ops arbitrary: st)
  case Nil
  show ?case by simp
next
  case (Cons op ops)
  let ?st1 = "process_op engine st op"
  let ?rec = "\<lparr>h_action = op_type op, h_params = op, h_result = ''success'',
               h_version = version (ls_session ?st1)\<rparr>"
  obtain bs where b: "ls_outcomes ?st1 = ls_outcomes st @ bs"
    "length bs = (if ls_raised ?st1 = None then 1 else 0)"
    and h: "history (ls_session ?st1) = history (ls_session st) @ (if True \<in> set bs then [?rec] else [])"
    using process_op_step [OF Cons.prems] by blast
  show ?case
  proof (cases "ls_raised ?st1")
    case (Some e)
    then have "bs = []" using b(2) by simp
    then show ?thesis using Some b(1) h by simp
  next
    case None
    then obtain x where x: "bs = [x]" using b(2) by (cases bs) auto
    obtain recs where r: "history (ls_session (run_ops engine ?st1 ops)) = history (ls_session ?st1) @ recs"
      "length recs
         = length (filter id (drop (length (ls_outcomes ?st1)) (ls_outcomes (run_ops engine ?st1 ops))))"
      "list_all (\<lambda>h. h_result h = ''success'') recs"
      using Cons.IH [OF None] by blast
    obtain cs where cs: "ls_outcomes (run_ops engine ?st1 ops) = ls_outcomes ?st1 @ cs"
      using run_ops_outcomes [OF None] by blast
    let ?new = "(if x then [?rec] else []) @ recs"
    have "history (ls_session (run_ops engine st (op # ops))) = history (ls_session st) @ ?new"
      using None h r(1) x by simp
    moreover have "length ?new
        = length (filter id (drop (length (ls_outcomes st)) (ls_outcomes (run_ops engine st (op # ops)))))"
      using None b(1) cs r(2) x by simp
    moreover have "list_all (\<lambda>h. h_result h = ''success'') ?new"
      using r(3) by simp
    ultimately show ?thesis by blast
  qed
qed

lemma run_ops_stored:
  assumes "ls_raised st = None"
    and "True \<notin> set (drop (length (ls_outcomes st)) (ls_outcomes (run_ops engine st ops)))"
  shows "stored (ls_session (run_ops engine st ops)) = stored (ls_session st)"
  using assms
proof (induction ops arbitrary: st)
  case Nil
  show ?case by simp
next
  case (Cons op ops)
  let ?st1 = "process_op engine st op"
  obtain bs where bs: "ls_outcomes ?st1 = ls_outcomes st @ bs"
    using process_op_step [OF Cons.prems(1)] by blast
  show ?case
  proof (cases "ls_raised ?st1")
    case (Some e)
    then show ?thesis using Cons.prems process_op_stored [of st engine op] by simp
  next
    case None
    obtain cs where cs: "ls_outcomes (run_ops engine ?st1 ops) = ls_outcomes ?st1 @ cs"
      using run_ops_outcomes [OF None] by blast
    have t: "True \<notin> set bs" "True \<notin> set cs"
      using Cons.prems(2) None bs cs by simp_all
    have "stored (ls_session ?st1) = stored (ls_session st)"
      using process_op_stored [OF Cons.prems(1), of engine op] bs t(1) by simp
    moreover have "stored (ls_session (run_ops engine ?st1 ops)) = stored (ls_session ?st1)"
      using Cons.IH [OF None] cs t(2) by simp
    ultimately show ?thesis using None by simp
  qed
qed

text \<open>The three ways a call on a session ends: without running the loop, with the summary, or by an exception.\<close>

lemma process_prompt_cases:
  obtains (idle) r where "process_prompt engine (Some s) p = idle r (Some s)"
      and "\<And>cf. current_file s = Some cf \<Longrightarrow> cf \<noteq> [] \<Longrightarrow> operations (parse p) = []"
      and "r = No_source \<or> r = Suggest"
  | (run) cf n ls v cfo where "current_file s = Some cf" and "cf \<noteq> []"
      and "ls_raised (run_ops engine (init_loop s cf) (operations (parse p))) = None"
      and "out_reply (process_prompt engine (Some s) p) = Inr (Applied n ls v cfo)"
      and "out_session (process_prompt engine (Some s) p)
             = Some (save_session (ls_session (run_ops engine (init_loop s cf) (operations (parse p)))))"
      and "out_outcomes (process_prompt engine (Some s) p)
             = ls_outcomes (run_ops engine (init_loop s cf) (operations (parse p)))"
      and "out_calls (process_prompt engine (Some s) p)
             = ls_calls (run_ops engine (init_loop s cf) (operations (parse p)))"
      and "out_slots (process_prompt engine (Some s) p)
             = ls_slots (run_ops engine (init_loop s cf) (operations (parse p)))"
  | (raised) cf e where "current_file s = Some cf" and "cf \<noteq> []"
      and "ls_raised (run_ops engine (init_loop s cf) (operations (parse p))) = Some e"
      and "out_reply (process_prompt engine (Some s) p) = Inl e"
      and "out_session (process_prompt engine (Some s) p)
             = Some (ls_session (run_ops engine (init_loop s cf) (operations (parse p))))"
      and "out_outcomes (process_prompt engine (Some s) p)
             = ls_outcomes (run_ops engine (init_loop s cf) (operations (parse p)))"
      and "out_calls (process_prompt engine (Some s) p)
             = ls_calls (run_ops engine (init_loop s cf) (operations (parse p)))"
      and "out_slots (process_prompt engine (Some s) p)
             = ls_slots (run_ops engine (init_loop s cf) (operations (parse p)))"
proof (cases "current_file s")
  case None
  then have "process_prompt engine (Some s) p = idle No_source (Some s)"
    by (simp add: process_prompt_def)
  then show ?thesis using idle None by simp
next
  case (Some cf)
  show ?thesis
  proof (cases "cf = []")
    case True
    then have "process_prompt engine (Some s) p = idle No_source (Some s)"
      using Some by (simp add: process_prompt_def)
    then show ?thesis using idle Some True by simp
  next
    case False
    show ?thesis
    proof (cases "operations (parse p) = [] \<and> \<not> requires_suno (parse p)")
      case True
      then have "process_prompt engine (Some s) p = idle Suggest (Some s)"
        using Some False by (simp add: process_prompt_def)
      then show ?thesis using idle True by simp
    next
      case nz: False
      show ?thesis
      proof (cases "ls_raised (run_ops engine (init_loop s cf) (operations (parse p)))")
        case None
        have "\<exists>n ls v cfo. out_reply (process_prompt engine (Some s) p) = Inr (Applied n ls v cfo)"
          using Some False nz None by (auto simp: process_prompt_def Let_def)
        then obtain n ls v cfo
          where r: "out_reply (process_prompt engine (Some s) p) = Inr (Applied n ls v cfo)"
          by blast
        show ?thesis
          by (rule run [OF Some False None r])
             (use Some False nz None in \<open>auto simp: process_prompt_def Let_def\<close>)
      next
        case e: (Some e)
        show ?thesis
          by (rule raised [OF Some False e])
             (use Some False nz e in \<open>auto simp: process_prompt_def Let_def\<close>)
      qed
    qed
  qed
qed

text \<open>
  C1 (amended). \<^verbatim>\<open>get_versioned_path\<close> advances \<^verbatim>\<open>version\<close> when the output path of an
  operation is requested, before the engine runs. For a batch without a master operation,
  \<^verbatim>\<open>version\<close> of the session object after \<^verbatim>\<open>process_prompt\<close> equals \<^verbatim>\<open>version\<close> before plus the
  number of operations whose path was requested: those that got an engine verdict, success
  or failure, and the one whose engine call raised, if the call was left by an exception.
  The history keeps its old entries and grows by one entry per successful operation, each
  with result \<^verbatim>\<open>success\<close>. When the call returns its reply on a session with a source,
  every operation of the parse result got a verdict, and when that reply is the summary,
  \<^verbatim>\<open>session.json\<close> holds the new version; when the call is left by an exception before any
  success, \<^verbatim>\<open>session.json\<close> is as it was.
\<close>

theorem batch_version_law:
  assumes "out_session (process_prompt engine (Some s) prompt) = Some s'"
    and "Op_master \<notin> set (operations (parse prompt))"
  shows "version s'
           = version s + int (length (out_outcomes (process_prompt engine (Some s) prompt)))
             + (if isl (out_reply (process_prompt engine (Some s) prompt)) then 1 else 0)
       \<and> take (length (history s)) (history s') = history s
       \<and> length (history s')
           = length (history s)
             + length (filter id (out_outcomes (process_prompt engine (Some s) prompt)))
       \<and> list_all (\<lambda>h. h_result h = ''success'') (drop (length (history s)) (history s'))
       \<and> (current_file s = Some cf \<and> cf \<noteq> []
            \<and> \<not> isl (out_reply (process_prompt engine (Some s) prompt))
            \<longrightarrow> length (out_outcomes (process_prompt engine (Some s) prompt))
                  = length (operations (parse prompt)))
       \<and> (out_reply (process_prompt engine (Some s) prompt) = Inr (Applied n ls v cfo)
            \<longrightarrow> stored s' = Some \<lparr>saved_history = history s', saved_current_file = current_file s',
                                   saved_version = version s'\<rparr>)
       \<and> (isl (out_reply (process_prompt engine (Some s) prompt))
            \<and> True \<notin> set (out_outcomes (process_prompt engine (Some s) prompt))
            \<longrightarrow> stored s' = stored s)"
proof (cases rule: process_prompt_cases [of engine s prompt])
  case (idle r)
  then show ?thesis using assms(1) by (auto simp: idle_def)
next
  case (run cf' n' ls' v' cfo')
  let ?i = "init_loop s cf'"
  let ?st = "run_ops engine ?i (operations (parse prompt))"
  have i: "ls_raised ?i = None" "ls_outcomes ?i = []" "ls_session ?i = s"
    by (simp_all add: init_loop_def)
  have s': "s' = save_session (ls_session ?st)"
    using assms(1) run(5) by simp
  have v: "version (ls_session ?st) = version s + int (length (ls_outcomes ?st))"
    using run_ops_version [OF assms(2) i(1), of engine] i run(3) by simp
  obtain bs where bs: "ls_outcomes ?st = bs" "length bs = length (operations (parse prompt))"
    using run_ops_outcomes [OF i(1), of engine "operations (parse prompt)"] i run(3) by auto
  obtain recs where recs: "history (ls_session ?st) = history s @ recs"
    "length recs = length (filter id (ls_outcomes ?st))"
    "list_all (\<lambda>h. h_result h = ''success'') recs"
    using run_ops_history [OF i(1), of engine "operations (parse prompt)"] i by auto
  show ?thesis
    using s' v bs recs run(4,6) by (simp add: save_session_def)
next
  case (raised cf' e)
  let ?i = "init_loop s cf'"
  let ?st = "run_ops engine ?i (operations (parse prompt))"
  have i: "ls_raised ?i = None" "ls_outcomes ?i = []" "ls_session ?i = s"
    by (simp_all add: init_loop_def)
  have s': "s' = ls_session ?st"
    using assms(1) raised(5) by simp
  have v: "version (ls_session ?st) = version s + int (length (ls_outcomes ?st)) + 1"
    using run_ops_version [OF assms(2) i(1), of engine] i raised(3) by simp
  obtain recs where recs: "history (ls_session ?st) = history s @ recs"
    "length recs = length (filter id (ls_outcomes ?st))"
    "list_all (\<lambda>h. h_result h = ''success'') recs"
    using run_ops_history [OF i(1), of engine "operations (parse prompt)"] i by auto
  have st: "True \<notin> set (ls_outcomes ?st) \<longrightarrow> stored (ls_session ?st) = stored s"
    using run_ops_stored [OF i(1), of engine "operations (parse prompt)"] i by simp
  show ?thesis
    using s' v recs raised(4,6) st by simp
qed

theorem batch_version_law_witness:
  "out_session (process_prompt engine_fail (Some fresh) ''more bass and louder'')
     = Some (fresh\<lparr>version := 2,
                stored := Some \<lparr>saved_history = [], saved_current_file = Some ''song.wav'',
                                 saved_version = 2\<rparr>\<rparr>)
   \<and> Op_master \<notin> set (operations (parse ''more bass and louder''))
   \<and> current_file fresh = Some ''song.wav'' \<and> ''song.wav'' \<noteq> []
   \<and> \<not> isl (out_reply (process_prompt engine_fail (Some fresh) ''more bass and louder''))
   \<and> out_outcomes (process_prompt engine_fail (Some fresh) ''more bass and louder'') = [False, False]
   \<and> length (operations (parse ''more bass and louder'')) = 2
   \<and> version (fresh\<lparr>version := 2,
                stored := Some \<lparr>saved_history = [], saved_current_file = Some ''song.wav'',
                                 saved_version = 2\<rparr>\<rparr>) = version fresh + 2
   \<and> out_session (process_prompt engine_missing (Some fresh) ''more bass and louder'')
     = Some (fresh\<lparr>version := 1\<rparr>)
   \<and> isl (out_reply (process_prompt engine_missing (Some fresh) ''more bass and louder''))
   \<and> out_outcomes (process_prompt engine_missing (Some fresh) ''more bass and louder'') = []
   \<and> version (fresh\<lparr>version := 1\<rparr>) = version fresh + 0 + 1
   \<and> stored (fresh\<lparr>version := 1\<rparr>) = stored fresh"
proof -
  have a: "out_session (process_prompt engine_fail (Some fresh) ''more bass and louder'')
     = Some (fresh\<lparr>version := 2,
                stored := Some \<lparr>saved_history = [], saved_current_file = Some ''song.wav'',
                                 saved_version = 2\<rparr>\<rparr>)"
    by code_simp
  have b: "Op_master \<notin> set (operations (parse ''more bass and louder''))"
    by code_simp
  have c: "out_outcomes (process_prompt engine_fail (Some fresh) ''more bass and louder'')
             = [False, False]"
    by code_simp
  have d: "current_file fresh = Some ''song.wav''" by (simp add: fresh_def)
  have e: "\<not> isl (out_reply (process_prompt engine_fail (Some fresh) ''more bass and louder''))"
    by code_simp
  have f: "out_session (process_prompt engine_missing (Some fresh) ''more bass and louder'')
     = Some (fresh\<lparr>version := 1\<rparr>)"
    by code_simp
  have g: "isl (out_reply (process_prompt engine_missing (Some fresh) ''more bass and louder''))"
    by code_simp
  have h: "out_outcomes (process_prompt engine_missing (Some fresh) ''more bass and louder'') = []"
    by code_simp
  have l: "length (operations (parse ''more bass and louder'')) = 2"
    by code_simp
  show ?thesis
    using a b c d e f g h l
      batch_version_law [OF a b, of "''song.wav''"]
      batch_version_law [OF f b, of "''song.wav''"]
    by simp
qed

theorem version_counts_successes_counterexample:
  "map_option version (out_session (process_prompt engine_fail (Some fresh) ''more bass'')) = Some 1
   \<and> version fresh = 0
   \<and> length (filter id (out_outcomes (process_prompt engine_fail (Some fresh) ''more bass''))) = 0
   \<and> map_option history (out_session (process_prompt engine_fail (Some fresh) ''more bass'')) = Some []"
  by code_simp

section \<open>Chaining of artifacts\<close>

lemma chained_append:
  "chained engine cur (xs @ ys)
     = (chained engine cur xs \<and> chained engine (last_good engine cur xs) ys)"
  by (induction xs arbitrary: cur) simp_all

lemma last_good_append:
  "last_good engine cur (xs @ ys) = last_good engine (last_good engine cur xs) ys"
  by (induction xs arbitrary: cur) simp_all

text \<open>
  What a branch of the loop hands back: either the refusal of the EQ with three zero gains,
  with no command, or the verdict of the engine on one command that reads the current
  file and writes the requested path.
\<close>

lemma run_ffmpeg_result:
  assumes "run_ffmpeg engine cur flt out = (v, cmds)"
  shows "\<exists>c. cmds = [c] \<and> cmd_input c = cur \<and> cmd_output c = out
      \<and> v = (case engine c of Inl e \<Rightarrow> Inl e | Inr rc \<Rightarrow> Inr (rc = 0))"
  using assms by (auto simp: run_ffmpeg_def Let_def split: sum.splits)

lemma apply_eq_shape:
  "(b = 0 \<and> m = 0 \<and> t = 0 \<and> apply_eq engine cur out b m t = (Inr False, []))
   \<or> (\<not> (b = 0 \<and> m = 0 \<and> t = 0)
       \<and> (\<exists>flt. apply_eq engine cur out b m t = run_ffmpeg engine cur flt out))"
  unfolding apply_eq_def Let_def by auto

lemma dispatch_verdict:
  "(\<not> needs_engine op \<and> fst (snd (snd (dispatch engine s cur out op))) = (Inr False, []))
   \<or> (needs_engine op
       \<and> (\<exists>flt. fst (snd (snd (dispatch engine s cur out op))) = run_ffmpeg engine cur flt out))"
proof (cases op)
  case (Op_eq p)
  then show ?thesis
    using apply_eq_shape [of "bass p" "mid p" "treble p" engine cur out] by auto
next
  case (Op_compression p)
  then show ?thesis by (auto simp: apply_compression_def)
next
  case (Op_reverb p)
  then show ?thesis by (auto simp: apply_reverb_def)
next
  case (Op_volume p)
  then show ?thesis by (auto simp: adjust_volume_def)
next
  case (Op_stereo_width p)
  then show ?thesis by (auto simp: stereo_width_def)
next
  case Op_master
  have "master_filters \<noteq> []" by (simp add: master_filters_def)
  then show ?thesis
    using Op_master by (auto simp: chain_effects_def split: prod.splits)
qed

lemma dispatch_other:
  "\<not> is_failure_note (snd (snd (snd (dispatch engine s cur out op))))
   \<and> current_file (fst (dispatch engine s cur out op)) = current_file s"
  by (cases op) (auto simp: get_versioned_path_def Let_def split: prod.splits)

lemma dispatch_shape:
  assumes "dispatch engine s cur out op = (s2, extra, (v, cmds), descr)"
  shows "\<not> is_failure_note descr \<and> current_file s2 = current_file s
       \<and> ((\<not> needs_engine op \<and> v = Inr False \<and> cmds = [])
          \<or> (needs_engine op
              \<and> (\<exists>c. cmds = [c] \<and> cmd_input c = cur \<and> cmd_output c = out
                    \<and> v = (case engine c of Inl e \<Rightarrow> Inl e | Inr rc \<Rightarrow> Inr (rc = 0)))))"
proof -
  have a: "\<not> is_failure_note descr \<and> current_file s2 = current_file s"
    using dispatch_other [of engine s cur out op] assms by simp
  have "(\<not> needs_engine op \<and> (v, cmds) = (Inr False, []))
      \<or> (needs_engine op \<and> (\<exists>flt. run_ffmpeg engine cur flt out = (v, cmds)))"
    using dispatch_verdict [of op engine s cur out] assms by auto
  then show ?thesis using a run_ffmpeg_result [of engine cur _ out v cmds] by auto
qed

text \<open>
  The three ways an iteration ends: the engine call raised; the method refused without a
  command (the EQ with three zero gains); the engine returned a code.
\<close>

lemma process_op_split3:
  assumes "ls_raised st = None"
  shows "(\<exists>c e. ls_raised (process_op engine st op) = Some e
            \<and> needs_engine op
            \<and> ls_calls (process_op engine st op) = ls_calls st @ [c]
            \<and> cmd_input c = ls_current st \<and> engine c = Inl e
            \<and> ls_outcomes (process_op engine st op) = ls_outcomes st
            \<and> ls_current (process_op engine st op) = ls_current st
            \<and> ls_results (process_op engine st op) = ls_results st
            \<and> current_file (ls_session (process_op engine st op)) = current_file (ls_session st))
       \<or> (ls_raised (process_op engine st op) = None
            \<and> \<not> needs_engine op
            \<and> ls_calls (process_op engine st op) = ls_calls st
            \<and> ls_outcomes (process_op engine st op) = ls_outcomes st @ [False]
            \<and> ls_current (process_op engine st op) = ls_current st
            \<and> length (filter is_failure_note (ls_results (process_op engine st op)))
                = Suc (length (filter is_failure_note (ls_results st)))
            \<and> current_file (ls_session (process_op engine st op)) = current_file (ls_session st))
       \<or> (\<exists>c rc. ls_raised (process_op engine st op) = None
            \<and> needs_engine op
            \<and> ls_calls (process_op engine st op) = ls_calls st @ [c]
            \<and> cmd_input c = ls_current st \<and> engine c = Inr rc
            \<and> ls_outcomes (process_op engine st op) = ls_outcomes st @ [rc = 0]
            \<and> ls_current (process_op engine st op)
                = (if rc = 0 then cmd_output c else ls_current st)
            \<and> length (filter is_failure_note (ls_results (process_op engine st op)))
                = length (filter is_failure_note (ls_results st)) + (if rc = 0 then 0 else 1)
            \<and> current_file (ls_session (process_op engine st op))
                = (if rc = 0 then Some (cmd_output c) else current_file (ls_session st)))"
proof -
  let ?st1 = "process_op engine st op"
  obtain out s1 where g: "get_versioned_path (ls_session st) (CHR ''_'' # op_type op) = (out, s1)"
    by fastforce
  have s1: "current_file s1 = current_file (ls_session st)"
    using g by (auto simp: get_versioned_path_def Let_def)
  obtain s2 extra v cmds descr
    where d: "dispatch engine s1 (ls_current st) out op = (s2, extra, (v, cmds), descr)"
    by (metis surj_pair)
  have sh: "\<not> is_failure_note descr" "current_file s2 = current_file s1"
    "(\<not> needs_engine op \<and> v = Inr False \<and> cmds = [])
     \<or> (needs_engine op
         \<and> (\<exists>c. cmds = [c] \<and> cmd_input c = ls_current st \<and> cmd_output c = out
               \<and> v = (case engine c of Inl e \<Rightarrow> Inl e | Inr rc \<Rightarrow> Inr (rc = 0))))"
    using dispatch_shape [OF d] by simp_all
  have raise: "?st1 = st\<lparr>ls_session := s2, ls_calls := ls_calls st @ cmds,
                          ls_slots := ls_slots st @ out # extra, ls_raised := Some e\<rparr>"
    if "v = Inl e" for e
    using that by (simp add: process_op_def g d Let_def)
  have fail: "?st1 = st\<lparr>ls_session := s2, ls_calls := ls_calls st @ cmds,
                         ls_slots := ls_slots st @ out # extra,
                         ls_results := ls_results st @ [descr, Line_failed (op_type op)],
                         ls_outcomes := ls_outcomes st @ [False]\<rparr>"
    if "v = Inr False"
    using that by (simp add: process_op_def g d Let_def)
  have good: "?st1 = st\<lparr>ls_session := add_action (s2\<lparr>current_file := Some out\<rparr>)
                                            (op_type op) op ''success'',
                         ls_calls := ls_calls st @ cmds,
                         ls_slots := ls_slots st @ out # extra,
                         ls_results := ls_results st @ [descr],
                         ls_outcomes := ls_outcomes st @ [True],
                         ls_current := out\<rparr>"
    if "v = Inr True"
    using that by (simp add: process_op_def g d Let_def)
  consider (nocall) "\<not> needs_engine op" "v = Inr False" "cmds = []"
    | (call) c where "needs_engine op" "cmds = [c]" "cmd_input c = ls_current st"
        "cmd_output c = out"
        "v = (case engine c of Inl e \<Rightarrow> Inl e | Inr rc \<Rightarrow> Inr (rc = 0))"
    using sh(3) by blast
  then show ?thesis
  proof cases
    case nocall
    show ?thesis
      using fail [OF nocall(2)] nocall assms sh(1,2) s1 by simp
  next
    case (call c)
    show ?thesis
    proof (cases "engine c")
      case (Inl e)
      then have v: "v = Inl e" using call(5) by simp
      have "ls_raised ?st1 = Some e \<and> needs_engine op
          \<and> ls_calls ?st1 = ls_calls st @ [c]
          \<and> cmd_input c = ls_current st \<and> engine c = Inl e
          \<and> ls_outcomes ?st1 = ls_outcomes st
          \<and> ls_current ?st1 = ls_current st
          \<and> ls_results ?st1 = ls_results st
          \<and> current_file (ls_session ?st1) = current_file (ls_session st)"
        using raise [OF v] call Inl sh(2) s1 by simp
      then show ?thesis by blast
    next
      case (Inr rc)
      show ?thesis
      proof (cases "rc = 0")
        case True
        then have v: "v = Inr True" using call(5) Inr by simp
        have "ls_raised ?st1 = None \<and> needs_engine op
            \<and> ls_calls ?st1 = ls_calls st @ [c]
            \<and> cmd_input c = ls_current st \<and> engine c = Inr rc
            \<and> ls_outcomes ?st1 = ls_outcomes st @ [rc = 0]
            \<and> ls_current ?st1 = (if rc = 0 then cmd_output c else ls_current st)
            \<and> length (filter is_failure_note (ls_results ?st1))
                = length (filter is_failure_note (ls_results st)) + (if rc = 0 then 0 else 1)
            \<and> current_file (ls_session ?st1)
                = (if rc = 0 then Some (cmd_output c) else current_file (ls_session st))"
          using good [OF v] call Inr True assms sh(1)
          by (simp add: add_action_def save_session_def)
        then show ?thesis by blast
      next
        case False
        then have v: "v = Inr False" using call(5) Inr by simp
        have "ls_raised ?st1 = None \<and> needs_engine op
            \<and> ls_calls ?st1 = ls_calls st @ [c]
            \<and> cmd_input c = ls_current st \<and> engine c = Inr rc
            \<and> ls_outcomes ?st1 = ls_outcomes st @ [rc = 0]
            \<and> ls_current ?st1 = (if rc = 0 then cmd_output c else ls_current st)
            \<and> length (filter is_failure_note (ls_results ?st1))
                = length (filter is_failure_note (ls_results st)) + (if rc = 0 then 0 else 1)
            \<and> current_file (ls_session ?st1)
                = (if rc = 0 then Some (cmd_output c) else current_file (ls_session st))"
          using fail [OF v] call Inr False assms sh(1,2) s1 by simp
        then show ?thesis by blast
      qed
    qed
  qed
qed

text \<open>The same, as one statement about the commands and outcomes the iteration adds.\<close>

lemma process_op_trace:
  assumes "ls_raised st = None"
  shows "\<exists>cs bs. ls_calls (process_op engine st op) = ls_calls st @ cs
      \<and> ls_outcomes (process_op engine st op) = ls_outcomes st @ bs
      \<and> chained engine (ls_current st) cs
      \<and> ls_current (process_op engine st op) = last_good engine (ls_current st) cs
      \<and> length (filter (\<lambda>b. b) bs) = length (filter (accepted engine) cs)
      \<and> length (filter is_failure_note (ls_results (process_op engine st op)))
          = length (filter is_failure_note (ls_results st)) + length (filter Not bs)
      \<and> current_file (ls_session (process_op engine st op))
          = (if True \<in> set bs then Some (ls_current (process_op engine st op))
             else current_file (ls_session st))
      \<and> (True \<notin> set bs \<longrightarrow> ls_current (process_op engine st op) = ls_current st)
      \<and> (ls_raised (process_op engine st op) = None
            \<longrightarrow> length cs = length (filter needs_engine [op]))
      \<and> (\<forall>e. ls_raised (process_op engine st op) = Some e
            \<longrightarrow> cs \<noteq> [] \<and> engine (last cs) = Inl e)"
proof -
  let ?st1 = "process_op engine st op"
  consider (raised) c e where "ls_raised ?st1 = Some e" "needs_engine op"
      "ls_calls ?st1 = ls_calls st @ [c]" "cmd_input c = ls_current st" "engine c = Inl e"
      "ls_outcomes ?st1 = ls_outcomes st" "ls_current ?st1 = ls_current st"
      "ls_results ?st1 = ls_results st"
      "current_file (ls_session ?st1) = current_file (ls_session st)"
    | (refused) "ls_raised ?st1 = None" "\<not> needs_engine op" "ls_calls ?st1 = ls_calls st"
      "ls_outcomes ?st1 = ls_outcomes st @ [False]" "ls_current ?st1 = ls_current st"
      "length (filter is_failure_note (ls_results ?st1))
         = Suc (length (filter is_failure_note (ls_results st)))"
      "current_file (ls_session ?st1) = current_file (ls_session st)"
    | (verdict) c rc where "ls_raised ?st1 = None" "needs_engine op"
      "ls_calls ?st1 = ls_calls st @ [c]" "cmd_input c = ls_current st" "engine c = Inr rc"
      "ls_outcomes ?st1 = ls_outcomes st @ [rc = 0]"
      "ls_current ?st1 = (if rc = 0 then cmd_output c else ls_current st)"
      "length (filter is_failure_note (ls_results ?st1))
         = length (filter is_failure_note (ls_results st)) + (if rc = 0 then 0 else 1)"
      "current_file (ls_session ?st1)
         = (if rc = 0 then Some (cmd_output c) else current_file (ls_session st))"
    using process_op_split3 [OF assms, of engine op] by (elim disjE exE conjE) blast+
  then show ?thesis
  proof cases
    case (raised c e)
    show ?thesis
      by (rule exI [of _ "[c]"], rule exI [of _ "[]"]) (use raised in \<open>simp add: accepted_def\<close>)
  next
    case refused
    show ?thesis
      by (rule exI [of _ "[]"], rule exI [of _ "[False]"]) (use refused in simp)
  next
    case (verdict c rc)
    show ?thesis
      by (rule exI [of _ "[c]"], rule exI [of _ "[rc = 0]"])
         (use verdict in \<open>simp add: accepted_def\<close>)
  qed
qed

lemma run_ops_trace:
  assumes "ls_raised st = None"
  shows "\<exists>cs bs. ls_calls (run_ops engine st ops) = ls_calls st @ cs
      \<and> ls_outcomes (run_ops engine st ops) = ls_outcomes st @ bs
      \<and> chained engine (ls_current st) cs
      \<and> ls_current (run_ops engine st ops) = last_good engine (ls_current st) cs
      \<and> length (filter (\<lambda>b. b) bs) = length (filter (accepted engine) cs)
      \<and> length (filter is_failure_note (ls_results (run_ops engine st ops)))
          = length (filter is_failure_note (ls_results st)) + length (filter Not bs)
      \<and> current_file (ls_session (run_ops engine st ops))
          = (if True \<in> set bs then Some (ls_current (run_ops engine st ops))
             else current_file (ls_session st))
      \<and> (True \<notin> set bs \<longrightarrow> ls_current (run_ops engine st ops) = ls_current st)
      \<and> (ls_raised (run_ops engine st ops) = None
            \<longrightarrow> length cs = length (filter needs_engine ops))
      \<and> (\<forall>e. ls_raised (run_ops engine st ops) = Some e
            \<longrightarrow> cs \<noteq> [] \<and> engine (last cs) = Inl e)"
  using assms
proof (induction ops arbitrary: st)
  case Nil
  show ?case
    by (rule exI [of _ "[]"], rule exI [of _ "[]"]) (use Nil in simp)
next
  case (Cons op ops)
  let ?st1 = "process_op engine st op"
  obtain cs bs where a: "ls_calls ?st1 = ls_calls st @ cs"
      "ls_outcomes ?st1 = ls_outcomes st @ bs"
      "chained engine (ls_current st) cs"
      "ls_current ?st1 = last_good engine (ls_current st) cs"
      "length (filter (\<lambda>b. b) bs) = length (filter (accepted engine) cs)"
      "length (filter is_failure_note (ls_results ?st1))
          = length (filter is_failure_note (ls_results st)) + length (filter Not bs)"
      "current_file (ls_session ?st1)
          = (if True \<in> set bs then Some (ls_current ?st1) else current_file (ls_session st))"
      "True \<notin> set bs \<longrightarrow> ls_current ?st1 = ls_current st"
      "ls_raised ?st1 = None \<longrightarrow> length cs = length (filter needs_engine [op])"
      "\<forall>e. ls_raised ?st1 = Some e \<longrightarrow> cs \<noteq> [] \<and> engine (last cs) = Inl e"
    using process_op_trace [OF Cons.prems, of engine op] by (elim exE conjE) (rule that)
  show ?case
  proof (cases "ls_raised ?st1")
    case (Some e)
    show ?thesis
      by (rule exI [of _ cs], rule exI [of _ bs]) (use Some a in simp)
  next
    case None
    let ?R = "run_ops engine ?st1 ops"
    obtain ds es where b: "ls_calls ?R = ls_calls ?st1 @ ds"
        "ls_outcomes ?R = ls_outcomes ?st1 @ es"
        "chained engine (ls_current ?st1) ds"
        "ls_current ?R = last_good engine (ls_current ?st1) ds"
        "length (filter (\<lambda>b. b) es) = length (filter (accepted engine) ds)"
        "length (filter is_failure_note (ls_results ?R))
            = length (filter is_failure_note (ls_results ?st1)) + length (filter Not es)"
        "current_file (ls_session ?R)
            = (if True \<in> set es then Some (ls_current ?R) else current_file (ls_session ?st1))"
        "True \<notin> set es \<longrightarrow> ls_current ?R = ls_current ?st1"
        "ls_raised ?R = None \<longrightarrow> length ds = length (filter needs_engine ops)"
        "\<forall>e. ls_raised ?R = Some e \<longrightarrow> ds \<noteq> [] \<and> engine (last ds) = Inl e"
      using Cons.IH [OF None] by (elim exE conjE) (rule that)
    have R: "run_ops engine st (op # ops) = ?R" using None by simp
    have c1: "ls_calls ?R = ls_calls st @ (cs @ ds)" using a(1) b(1) by simp
    have c2: "ls_outcomes ?R = ls_outcomes st @ (bs @ es)" using a(2) b(2) by simp
    have c3: "chained engine (ls_current st) (cs @ ds)"
      using a(3,4) b(3) by (simp add: chained_append)
    have c4: "ls_current ?R = last_good engine (ls_current st) (cs @ ds)"
      using a(4) b(4) by (simp add: last_good_append)
    have c5: "length (filter (\<lambda>b. b) (bs @ es)) = length (filter (accepted engine) (cs @ ds))"
      using a(5) b(5) by simp
    have c6: "length (filter is_failure_note (ls_results ?R))
          = length (filter is_failure_note (ls_results st)) + length (filter Not (bs @ es))"
      using a(6) b(6) by simp
    have c7: "current_file (ls_session ?R)
          = (if True \<in> set (bs @ es) then Some (ls_current ?R) else current_file (ls_session st))"
      using a(7) b(7,8) by auto
    have c8: "True \<notin> set (bs @ es) \<longrightarrow> ls_current ?R = ls_current st"
      using a(8) b(8) by simp
    have c9: "ls_raised ?R = None \<longrightarrow> length (cs @ ds) = length (filter needs_engine (op # ops))"
      using a(9) b(9) None by simp
    have c10: "\<forall>e. ls_raised ?R = Some e \<longrightarrow> cs @ ds \<noteq> [] \<and> engine (last (cs @ ds)) = Inl e"
      using b(10) by simp
    show ?thesis
      unfolding R
      by (rule exI [of _ "cs @ ds"], rule exI [of _ "bs @ es"])
         (intro conjI c1 c2 c3 c4 c5 c6 c7 c8 c9 c10)
  qed
qed




section \<open>Undo\<close>

text \<open>
  C4 (amended). \<^verbatim>\<open>undo\<close> answers "Nothing to undo" exactly when there is no session or
  \<^verbatim>\<open>version\<close> is below 2. For a session at version 2 or more, when the directory scan finds
  a file of the previous version and that file exists, \<^verbatim>\<open>undo\<close> makes it the current file
  and decrements \<^verbatim>\<open>version\<close>, writing no history entry. Right after \<^verbatim>\<open>set_source\<close>
  (version 0) it answers "Nothing to undo".
\<close>

theorem undo_guard:
  "(fst (undo file_exists entries (Some s)) = Nothing_to_undo) = (version s < 2)
   \<and> undo file_exists entries None = (Nothing_to_undo, None)
   \<and> (2 \<le> version s
        \<and> filter (glob_match (''v'' @ fmt_03d (version s - 1)) ''.wav'') entries = f # fs
        \<and> file_exists (session_dir s @ ''/'' @ f)
      \<longrightarrow> undo file_exists entries (Some s)
            = (Reverted (version s - 1),
               Some (save_session (s\<lparr>current_file := Some (session_dir s @ ''/'' @ f),
                                      version := version s - 1\<rparr>))))
   \<and> undo file_exists entries (Some (session_set_source s src))
       = (Nothing_to_undo, Some (session_set_source s src))"
  by (simp add: undo_def Let_def session_set_source_def save_session_def
      split: option.splits list.splits)

theorem undo_guard_witness:
  "2 \<le> version two_done
   \<and> filter (glob_match (''v'' @ fmt_03d (version two_done - 1)) ''.wav'')
        [''session.json'', ''v001_eq.wav'', ''v002_eq.wav''] = [''v001_eq.wav'']
   \<and> all_exist (session_dir two_done @ ''/'' @ ''v001_eq.wav'')
   \<and> undo all_exist [''session.json'', ''v001_eq.wav'', ''v002_eq.wav''] (Some two_done)
       = (Reverted 1,
          Some (save_session (two_done\<lparr>current_file := Some ''sessions/demo/v001_eq.wav'',
                                         version := 1\<rparr>)))"
proof -
  have a: "2 \<le> version two_done" by (simp add: two_done_def fresh_def)
  have b: "filter (glob_match (''v'' @ fmt_03d (version two_done - 1)) ''.wav'')
        [''session.json'', ''v001_eq.wav'', ''v002_eq.wav''] = [''v001_eq.wav'']"
    by code_simp
  have c: "all_exist (session_dir two_done @ ''/'' @ ''v001_eq.wav'')" by (simp add: all_exist_def)
  have d: "version two_done - 1 = 1" "session_dir two_done = ''sessions/demo''"
    by (simp_all add: two_done_def fresh_def)
  show ?thesis
    using a b c d
      undo_guard [of all_exist "[''session.json'', ''v001_eq.wav'', ''v002_eq.wav'']" two_done
        "''v001_eq.wav''" "[]"]
    by simp
qed

theorem undo_at_version_one_counterexample:
  "map_option version (out_session (process_prompt engine_ok (Some (session_set_source fresh ''song.wav'')) ''more bass'')) = Some 1
   \<and> all_exist ''song.wav''
   \<and> fst (undo all_exist [''session.json'', ''v001_eq.wav'']
        (out_session (process_prompt engine_ok (Some (session_set_source fresh ''song.wav'')) ''more bass'')))
      = Nothing_to_undo"
  by code_simp

section \<open>The mastering chain\<close>

lemma run_ops_single: "run_ops engine st [op] = process_op engine st op"
  by (simp add: Let_def split: option.splits)

lemma run_ops_append:
  assumes "ls_raised st = None"
  shows "run_ops engine st (xs @ ys)
     = (case ls_raised (run_ops engine st xs) of
          Some e \<Rightarrow> run_ops engine st xs
        | None \<Rightarrow> run_ops engine (run_ops engine st xs) ys)"
  using assms
proof (induction xs arbitrary: st)
  case Nil
  then show ?case by simp
next
  case (Cons x xs)
  show ?case
  proof (cases "ls_raised (process_op engine st x)")
    case None
    then have step: "run_ops engine st (x # zs) = run_ops engine (process_op engine st x) zs" for zs
      by (simp add: Let_def)
    show ?thesis using Cons.IH [OF None] by (simp only: append_Cons step)
  next
    case (Some e)
    then show ?thesis by (simp add: Let_def)
  qed
qed

lemma process_op_master_calls:
  "ls_calls (process_op engine st Op_master)
     = ls_calls st
       @ [\<lparr>cmd_input = ls_current st,
           cmd_af = Af_text (join_comma master_filters),
           cmd_output = session_dir (ls_session st) @ ''/'' @ ''v''
                          @ fmt_03d (version (ls_session st) + 1) @ ''_master'' @ ''.wav''\<rparr>]"
  by (simp add: process_op_def get_versioned_path_def Let_def chain_effects_def run_ffmpeg_def
      master_filters_def split: prod.splits sum.splits)

lemma parse_master_last:
  assumes "any_in MASTER_KEYWORDS (lower t)"
  shows "\<exists>front. operations (parse t) = front @ [Op_master]"
  using assms by (simp add: parse_operations fam_def)

text \<open>
  C7. Whenever a master operation is processed, the engine receives exactly one command,
  reading the current file, whose filter text is the five fixed stages in order: high-pass
  at 30 Hz, compressor, the two-band equalizer boost, limiter, loudness normalisation.
  For every prompt with a mastering keyword, whatever else it says, this is the last
  command of the batch whenever the call returns its summary; if the call is left by an
  exception, the last command is the one on which the engine raised.
\<close>

theorem master_chain_fixed:
  assumes "any_in MASTER_KEYWORDS (lower prompt)" and "current_file s = Some cf" and "cf \<noteq> []"
  shows "out_calls (process_prompt engine (Some s) prompt) \<noteq> []
       \<and> (\<not> isl (out_reply (process_prompt engine (Some s) prompt))
            \<longrightarrow> cmd_af (last (out_calls (process_prompt engine (Some s) prompt)))
                  = Af_text (join_comma
                      [''highpass=f=30'',
                       ''acompressor=threshold=-18dB:ratio=3:attack=10:release=100'',
                       ''equalizer=f=100:t=q:w=1:g=1,equalizer=f=10000:t=q:w=1:g=1.5'',
                       ''alimiter=limit=-1dB:level=false'',
                       ''loudnorm=I=-14:TP=-1.5:LRA=11'']))
       \<and> (out_reply (process_prompt engine (Some s) prompt) = Inl e
            \<longrightarrow> engine (last (out_calls (process_prompt engine (Some s) prompt))) = Inl e)
       \<and> ls_calls (process_op engine st Op_master)
           = ls_calls st
             @ [\<lparr>cmd_input = ls_current st,
                 cmd_af = Af_text (join_comma
                   [''highpass=f=30'',
                    ''acompressor=threshold=-18dB:ratio=3:attack=10:release=100'',
                    ''equalizer=f=100:t=q:w=1:g=1,equalizer=f=10000:t=q:w=1:g=1.5'',
                    ''alimiter=limit=-1dB:level=false'',
                    ''loudnorm=I=-14:TP=-1.5:LRA=11'']),
                 cmd_output = session_dir (ls_session st) @ ''/'' @ ''v''
                                @ fmt_03d (version (ls_session st) + 1) @ ''_master'' @ ''.wav''\<rparr>]"
proof -
  let ?r = "process_prompt engine (Some s) prompt"
  let ?i = "init_loop s cf"
  obtain front where front: "operations (parse prompt) = front @ [Op_master]"
    using parse_master_last [OF assms(1)] by blast
  let ?mid = "run_ops engine ?i front"
  let ?fin = "run_ops engine ?i (operations (parse prompt))"
  have i: "ls_raised ?i = None" "ls_calls ?i = []" by (simp_all add: init_loop_def)
  have calls: "out_calls ?r = ls_calls ?fin"
    using assms(2,3) front by (simp add: process_prompt_def Let_def split: option.splits)
  have reply: "isl (out_reply ?r) = (ls_raised ?fin \<noteq> None)"
    "out_reply ?r = Inl e \<longrightarrow> ls_raised ?fin = Some e"
    using assms(2,3) front by (auto simp: process_prompt_def Let_def split: option.splits)
  obtain cs where t: "ls_calls ?fin = cs"
    "\<forall>e. ls_raised ?fin = Some e \<longrightarrow> cs \<noteq> [] \<and> engine (last cs) = Inl e"
    using run_ops_trace [OF i(1), of engine "operations (parse prompt)"] i(2) by auto
  have fin: "?fin = (case ls_raised ?mid of Some x \<Rightarrow> ?mid
                     | None \<Rightarrow> run_ops engine ?mid [Op_master])"
    unfolding front by (rule run_ops_append [OF i(1)])
  have m: "ls_raised ?fin = None \<longrightarrow> ls_calls ?fin
      = ls_calls ?mid
        @ [\<lparr>cmd_input = ls_current ?mid, cmd_af = Af_text (join_comma master_filters),
            cmd_output = session_dir (ls_session ?mid) @ ''/'' @ ''v''
                           @ fmt_03d (version (ls_session ?mid) + 1) @ ''_master'' @ ''.wav''\<rparr>]"
  proof (cases "ls_raised ?mid")
    case (Some x)
    then show ?thesis using fin by simp
  next
    case None
    then have "?fin = process_op engine ?mid Op_master"
      using fin by (simp only: run_ops_single option.case)
    then have "ls_calls ?fin = ls_calls (process_op engine ?mid Op_master)"
      by simp
    then show ?thesis by (simp only: process_op_master_calls) simp
  qed
  have a: "out_calls ?r \<noteq> []"
  proof (cases "ls_raised ?fin")
    case None
    then show ?thesis using m calls by simp
  next
    case (Some x)
    then show ?thesis using t calls by simp
  qed
  have b: "\<not> isl (out_reply ?r)
      \<longrightarrow> cmd_af (last (out_calls ?r)) = Af_text (join_comma master_filters)"
    using reply(1) m calls by simp
  have c: "out_reply ?r = Inl e \<longrightarrow> engine (last (out_calls ?r)) = Inl e"
    using reply(2) t calls by simp
  show ?thesis
    using a b c process_op_master_calls [of engine st] by (simp only: master_filters_def) simp
qed

theorem master_chain_fixed_witness:
  "any_in MASTER_KEYWORDS (lower ''Add reverb, more bass, then MASTER for Spotify'')
   \<and> current_file fresh = Some ''song.wav'' \<and> ''song.wav'' \<noteq> []
   \<and> \<not> isl (out_reply
        (process_prompt engine_ok (Some fresh) ''Add reverb, more bass, then MASTER for Spotify''))
   \<and> cmd_af (last (out_calls
        (process_prompt engine_ok (Some fresh) ''Add reverb, more bass, then MASTER for Spotify'')))
       = Af_text ''highpass=f=30,acompressor=threshold=-18dB:ratio=3:attack=10:release=100,equalizer=f=100:t=q:w=1:g=1,equalizer=f=10000:t=q:w=1:g=1.5,alimiter=limit=-1dB:level=false,loudnorm=I=-14:TP=-1.5:LRA=11''
   \<and> out_reply
        (process_prompt engine_missing (Some fresh) ''Add reverb, more bass, then MASTER for Spotify'')
       = Inl FileNotFoundError
   \<and> engine_missing (last (out_calls
        (process_prompt engine_missing (Some fresh) ''Add reverb, more bass, then MASTER for Spotify'')))
       = Inl FileNotFoundError"
proof -
  have a: "any_in MASTER_KEYWORDS (lower ''Add reverb, more bass, then MASTER for Spotify'')"
    by code_simp
  have b: "current_file fresh = Some ''song.wav''" by (simp add: fresh_def)
  have c: "''song.wav'' \<noteq> []" by simp
  have d: "\<not> isl (out_reply
        (process_prompt engine_ok (Some fresh) ''Add reverb, more bass, then MASTER for Spotify''))"
    by code_simp
  have e: "out_reply
        (process_prompt engine_missing (Some fresh) ''Add reverb, more bass, then MASTER for Spotify'')
       = Inl FileNotFoundError"
    by code_simp
  show ?thesis
    using a b c d e
      master_chain_fixed [OF a b c, where engine = engine_ok]
      master_chain_fixed [OF a b c, where engine = engine_missing and e = FileNotFoundError]
    by simp
qed

section \<open>Versioned paths\<close>

lemma of_char_digit_char: "d < 10 \<Longrightarrow> (of_char (digit_char d) :: nat) = 48 + d"
  by (simp add: digit_char_def)

lemma digit_val_digit_char: "d < 10 \<Longrightarrow> digit_val (digit_char d) = int d"
  by (simp add: digit_val_def of_char_digit_char)

lemma is_digit_digit_char: "d < 10 \<Longrightarrow> is_digit (digit_char d)"
  by (simp add: is_digit_def of_char_digit_char)

lemma is_digit_zero: "is_digit (CHR ''0'')"
  by (simp add: is_digit_def)

lemma dec_digits: "list_all is_digit (dec n)"
proof (induction n rule: dec.induct)
  case (1 n)
  show ?case
  proof (cases "n < 10")
    case True
    then show ?thesis by (subst dec.simps) (simp add: is_digit_digit_char)
  next
    case False
    then show ?thesis using 1 by (subst dec.simps) (simp add: is_digit_digit_char)
  qed
qed

lemma dec_nonempty: "dec n \<noteq> []"
  by (subst dec.simps) simp

lemma dec_value: "foldl (\<lambda>a d. 10 * a + digit_val d) 0 (dec n) = int n"
proof (induction n rule: dec.induct)
  case (1 n)
  show ?case
  proof (cases "n < 10")
    case True
    then show ?thesis by (subst dec.simps) (simp add: digit_val_digit_char)
  next
    case False
    then have "foldl (\<lambda>a d. 10 * a + digit_val d) 0 (dec n)
        = 10 * int (n div 10) + int (n mod 10)"
      using 1 by (subst dec.simps) (simp add: digit_val_digit_char)
    then show ?thesis by presburger
  qed
qed

lemma zpad_digits: "list_all is_digit s \<Longrightarrow> list_all is_digit (zpad w s)"
  by (auto simp: zpad_def list_all_iff is_digit_zero)

lemma zpad_nonempty: "s \<noteq> [] \<Longrightarrow> zpad w s \<noteq> []"
  by (simp add: zpad_def)

lemma zpad_value:
  "foldl (\<lambda>a d. 10 * a + digit_val d) 0 (zpad w s) = foldl (\<lambda>a d. 10 * a + digit_val d) 0 s"
proof -
  have "foldl (\<lambda>a d. 10 * a + digit_val d) 0 (replicate m (CHR ''0'') @ s)
      = foldl (\<lambda>a d. 10 * a + digit_val d) 0 s" for m
    by (induction m) (simp_all add: digit_val_def)
  then show ?thesis by (simp add: zpad_def)
qed

lemma py_int_digits:
  assumes "list_all is_digit s" and "s \<noteq> []"
  shows "py_int s = foldl (\<lambda>a d. 10 * a + digit_val d) 0 s"
proof -
  obtain c r where s: "s = c # r" using assms(2) by (cases s) auto
  have "is_digit c" using assms(1) s by simp
  then have "c \<noteq> CHR ''-''" "c \<noteq> CHR ''+''" by (auto simp: is_digit_def)
  then show ?thesis using s by (simp add: py_int_def)
qed

lemma py_int_fmt_03d: "py_int (fmt_03d v) = v"
proof (cases "v < 0")
  case True
  then show ?thesis by (simp add: fmt_03d_def py_int_def zpad_value dec_value)
next
  case False
  have "py_int (zpad 3 (dec (nat v))) = int (nat v)"
    by (simp add: py_int_digits zpad_digits dec_digits zpad_nonempty dec_nonempty zpad_value
        dec_value)
  then show ?thesis using False by (simp add: fmt_03d_def)
qed

lemma underscore_no_digit: "\<not> is_digit (CHR ''_'')"
  by (simp add: is_digit_def)

lemma digits_no_underscore: "list_all is_digit s \<Longrightarrow> CHR ''_'' \<notin> set s"
  by (induction s) (auto simp: underscore_no_digit)

lemma fmt_03d_no_underscore: "CHR ''_'' \<notin> set (fmt_03d v)"
proof (cases "v < 0")
  case True
  have "CHR ''_'' \<notin> set (zpad 2 (dec (nat (- v))))"
    by (rule digits_no_underscore) (rule zpad_digits, rule dec_digits)
  then show ?thesis using True by (simp add: fmt_03d_def)
next
  case False
  have "CHR ''_'' \<notin> set (zpad 3 (dec (nat v)))"
    by (rule digits_no_underscore) (rule zpad_digits, rule dec_digits)
  then show ?thesis using False by (simp add: fmt_03d_def)
qed

lemma takeWhile_upto: "x \<notin> set xs \<Longrightarrow> takeWhile (\<lambda>c. c \<noteq> x) (xs @ x # r) = xs"
  by (induction xs) auto

lemma fmt_03d_underscore_inj:
  assumes "fmt_03d a @ CHR ''_'' # r = fmt_03d b @ CHR ''_'' # r'"
  shows "a = b"
proof -
  have "takeWhile (\<lambda>c. c \<noteq> CHR ''_'') (fmt_03d a @ CHR ''_'' # r) = fmt_03d a"
    by (rule takeWhile_upto) (rule fmt_03d_no_underscore)
  moreover have "takeWhile (\<lambda>c. c \<noteq> CHR ''_'') (fmt_03d b @ CHR ''_'' # r') = fmt_03d b"
    by (rule takeWhile_upto) (rule fmt_03d_no_underscore)
  ultimately have "fmt_03d a = fmt_03d b" using assms by simp
  then have "py_int (fmt_03d a) = py_int (fmt_03d b)" by simp
  then show ?thesis by (simp only: py_int_fmt_03d)
qed

lemma is_slot_inj: "is_slot d k p \<Longrightarrow> is_slot d k' p \<Longrightarrow> k = k'"
  by (auto simp: is_slot_def dest: fmt_03d_underscore_inj)

lemma slots_distinct:
  "list_all2 (is_slot d) ks ps \<Longrightarrow> distinct ks \<Longrightarrow> distinct ps"
proof (induction ks ps rule: list_all2_induct)
  case Nil
  show ?case by simp
next
  case (Cons k ks p ps)
  have "p \<notin> set ps"
  proof
    assume "p \<in> set ps"
    then obtain i where i: "i < length ps" "ps ! i = p" by (auto simp: in_set_conv_nth)
    then have "is_slot d (ks ! i) p" and "i < length ks"
      using Cons.hyps(2) by (auto simp: list_all2_conv_all_nth)
    then have "ks ! i = k" "ks ! i \<in> set ks" using Cons.hyps(1) is_slot_inj by auto
    then show False using Cons.prems by simp
  qed
  then show ?case using Cons by simp
qed

lemma process_op_slots:
  "\<exists>ks new. ls_slots (process_op engine st op) = ls_slots st @ new
     \<and> list_all2 (is_slot (session_dir (ls_session st))) ks new
     \<and> sorted_wrt (<) ks
     \<and> (\<forall>k\<in>set ks. version (ls_session st) < k \<and> k \<le> version (ls_session (process_op engine st op)))"
proof (cases "op = Op_master")
  case True
  let ?v = "version (ls_session st)"
  let ?d = "session_dir (ls_session st)"
  have "ls_slots (process_op engine st op)
      = ls_slots st @ [?d @ ''/'' @ ''v'' @ fmt_03d (?v + 1) @ CHR ''_'' # ''master.wav'',
                       ?d @ ''/'' @ ''v'' @ fmt_03d (?v + 2) @ CHR ''_'' # ''master_temp.wav'']"
    using True
    by (auto simp: process_op_def get_versioned_path_def Let_def add.commute
        split: prod.splits sum.splits)
  moreover have "list_all2 (is_slot ?d) [?v + 1, ?v + 2]
      [?d @ ''/'' @ ''v'' @ fmt_03d (?v + 1) @ CHR ''_'' # ''master.wav'',
       ?d @ ''/'' @ ''v'' @ fmt_03d (?v + 2) @ CHR ''_'' # ''master_temp.wav'']"
    by (simp add: is_slot_def)
  moreover have "sorted_wrt (<) [?v + 1, ?v + 2]" by simp
  moreover have "\<forall>k\<in>set [?v + 1, ?v + 2]. ?v < k \<and> k \<le> version (ls_session (process_op engine st op))"
    using True by (simp add: process_op_version)
  ultimately show ?thesis by blast
next
  case False
  let ?v = "version (ls_session st)"
  let ?d = "session_dir (ls_session st)"
  have "ls_slots (process_op engine st op)
      = ls_slots st @ [?d @ ''/'' @ ''v'' @ fmt_03d (?v + 1) @ CHR ''_'' # op_type op @ ''.wav'']"
    using False
    by (cases op)
       (auto simp: process_op_def get_versioned_path_def Let_def split: prod.splits sum.splits)
  moreover have "list_all2 (is_slot ?d) [?v + 1]
      [?d @ ''/'' @ ''v'' @ fmt_03d (?v + 1) @ CHR ''_'' # op_type op @ ''.wav'']"
    by (simp add: is_slot_def)
  moreover have "sorted_wrt (<) [?v + 1]" by simp
  moreover have "\<forall>k\<in>set [?v + 1]. ?v < k \<and> k \<le> version (ls_session (process_op engine st op))"
    using False by (simp add: process_op_version)
  ultimately show ?thesis by blast
qed

lemma process_op_version_mono:
  "version (ls_session st) \<le> version (ls_session (process_op engine st op))"
  by (simp add: process_op_version)

lemma run_ops_version_mono:
  "version (ls_session st) \<le> version (ls_session (run_ops engine st ops))"
proof (induction ops arbitrary: st)
  case Nil
  show ?case by simp
next
  case (Cons op ops)
  show ?case
    using Cons.IH [of "process_op engine st op"] process_op_version_mono [of st engine op]
    by (simp add: Let_def split: option.splits)
qed

lemma run_ops_session_dir:
  "session_dir (ls_session (run_ops engine st ops)) = session_dir (ls_session st)"
  by (induction ops arbitrary: st)
     (simp_all add: process_op_session_dir Let_def split: option.splits)

lemma sorted_wrt_join:
  fixes ks ls :: "int list"
  assumes "sorted_wrt (<) ks" and "sorted_wrt (<) ls"
    and "\<forall>k\<in>set ks. k \<le> m" and "\<forall>l\<in>set ls. m < l"
  shows "sorted_wrt (<) (ks @ ls)"
  using assms by (fastforce simp: sorted_wrt_append)

lemma run_ops_slots:
  "\<exists>ks new. ls_slots (run_ops engine st ops) = ls_slots st @ new
     \<and> list_all2 (is_slot (session_dir (ls_session st))) ks new
     \<and> sorted_wrt (<) ks
     \<and> (\<forall>k\<in>set ks. version (ls_session st) < k \<and> k \<le> version (ls_session (run_ops engine st ops)))"
proof (induction ops arbitrary: st)
  case Nil
  have "list_all2 (is_slot (session_dir (ls_session st))) [] []" by simp
  then show ?case by force
next
  case (Cons op ops)
  let ?st1 = "process_op engine st op"
  let ?d = "session_dir (ls_session st)"
  obtain ks new where a: "ls_slots ?st1 = ls_slots st @ new"
    "list_all2 (is_slot ?d) ks new" "sorted_wrt (<) ks"
    "\<forall>k\<in>set ks. version (ls_session st) < k \<and> k \<le> version (ls_session ?st1)"
    using process_op_slots by blast
  show ?case
  proof (cases "ls_raised ?st1")
    case (Some e)
    then have "run_ops engine st (op # ops) = ?st1" by (simp add: Let_def)
    then show ?thesis using a by metis
  next
    case None
    then have R: "run_ops engine st (op # ops) = run_ops engine ?st1 ops" by (simp add: Let_def)
    obtain ls more where b: "ls_slots (run_ops engine ?st1 ops) = ls_slots ?st1 @ more"
      "list_all2 (is_slot (session_dir (ls_session ?st1))) ls more" "sorted_wrt (<) ls"
      "\<forall>k\<in>set ls. version (ls_session ?st1) < k \<and> k \<le> version (ls_session (run_ops engine ?st1 ops))"
      using Cons.IH by blast
    have m1: "version (ls_session st) \<le> version (ls_session ?st1)"
      by (rule process_op_version_mono)
    have m2: "version (ls_session ?st1) \<le> version (ls_session (run_ops engine ?st1 ops))"
      by (rule run_ops_version_mono)
    have "ls_slots (run_ops engine ?st1 ops) = ls_slots st @ (new @ more)"
      using a(1) b(1) by simp
    moreover have "list_all2 (is_slot ?d) (ks @ ls) (new @ more)"
      using a(2) b(2) by (simp add: process_op_session_dir list_all2_appendI)
    moreover have "sorted_wrt (<) (ks @ ls)"
      by (rule sorted_wrt_join [where m = "version (ls_session ?st1)"]) (use a b in auto)
    moreover have "\<forall>k\<in>set (ks @ ls). version (ls_session st) < k
          \<and> k \<le> version (ls_session (run_ops engine ?st1 ops))"
      using a(4) b(4) m1 m2 by fastforce
    ultimately show ?thesis unfolding R by blast
  qed
qed

lemma run_events_prompt:
  "fst (run_events eng (Ev_prompt engine prompt # evs))
     = out_slots (process_prompt engine eng prompt)
       @ fst (run_events (out_session (process_prompt engine eng prompt)) evs)"
  by (simp add: Let_def split: prod.splits)

lemma run_events_none: "fst (run_events None evs) = []"
proof (induction evs)
  case Nil
  show ?case by simp
next
  case (Cons ev evs)
  show ?case
  proof (cases ev)
    case (Ev_prompt engine prompt)
    then show ?thesis
      using Cons.IH by (simp add: run_events_prompt process_prompt_def idle_def)
  next
    case (Ev_undo file_exists entries)
    then show ?thesis using Cons.IH by (simp add: undo_def)
  qed
qed

lemma undo_keeps_or_reverts:
  "snd (undo file_exists entries eng) = eng \<or> (\<exists>v. fst (undo file_exists entries eng) = Reverted v)"
  by (simp add: undo_def Let_def split: option.splits list.splits)

lemma run_events_slots:
  "no_revert (Some s) evs \<Longrightarrow>
   \<exists>ks. list_all2 (is_slot (session_dir s)) ks (fst (run_events (Some s) evs))
      \<and> sorted_wrt (<) ks \<and> (\<forall>k\<in>set ks. version s < k)"
proof (induction evs arbitrary: s)
  case Nil
  have "list_all2 (is_slot (session_dir s)) [] (fst (run_events (Some s) []))" by simp
  then show ?case by force
next
  case (Cons ev evs)
  show ?case
  proof (cases ev)
    case (Ev_undo file_exists entries)
    have "snd (undo file_exists entries (Some s)) = Some s"
      using Cons.prems Ev_undo undo_keeps_or_reverts [of file_exists entries "Some s"]
      by (auto split: undo_reply.splits)
    moreover have "no_revert (snd (undo file_exists entries (Some s))) evs"
      using Cons.prems Ev_undo by (auto split: undo_reply.splits)
    ultimately show ?thesis using Cons.IH [of s] Ev_undo by simp
  next
    case (Ev_prompt engine prompt)
    have nr: "no_revert (out_session (process_prompt engine (Some s) prompt)) evs"
      using Cons.prems Ev_prompt by simp
    show ?thesis
    proof -
      obtain cf s' where run: "out_session (process_prompt engine (Some s) prompt) = Some s'"
        "(s' = s \<and> out_slots (process_prompt engine (Some s) prompt) = [])
         \<or> (out_slots (process_prompt engine (Some s) prompt)
               = ls_slots (run_ops engine (init_loop s cf) (operations (parse prompt)))
             \<and> version s' = version (ls_session (run_ops engine (init_loop s cf) (operations (parse prompt))))
             \<and> session_dir s' = session_dir (ls_session (run_ops engine (init_loop s cf) (operations (parse prompt)))))"
      proof (cases rule: process_prompt_cases [of engine s prompt])
        case (idle r)
        then show ?thesis using that [of s] by (simp add: idle_def)
      next
        case (run cf n ls v cfo)
        then show ?thesis
          using that [of "save_session (ls_session (run_ops engine (init_loop s cf) (operations (parse prompt))))" cf]
          by (simp add: save_session_def)
      next
        case (raised cf e)
        then show ?thesis
          using that [of "ls_session (run_ops engine (init_loop s cf) (operations (parse prompt)))" cf]
          by simp
      qed
      from run(2) show ?thesis
      proof
        assume "s' = s \<and> out_slots (process_prompt engine (Some s) prompt) = []"
        then show ?thesis
          using Cons.IH [of s] nr run(1) Ev_prompt by (simp add: run_events_prompt)
      next
        let ?st = "run_ops engine (init_loop s cf) (operations (parse prompt))"
        assume r: "out_slots (process_prompt engine (Some s) prompt) = ls_slots ?st
             \<and> version s' = version (ls_session ?st)
             \<and> session_dir s' = session_dir (ls_session ?st)"
        have i: "ls_slots (init_loop s cf) = []" "ls_session (init_loop s cf) = s"
          by (simp_all add: init_loop_def)
        obtain ks new where a: "ls_slots ?st = new"
          "list_all2 (is_slot (session_dir s)) ks new" "sorted_wrt (<) ks"
          "\<forall>k\<in>set ks. version s < k \<and> k \<le> version (ls_session ?st)"
          using run_ops_slots [of engine "init_loop s cf" "operations (parse prompt)"] i by auto
        have d: "session_dir s' = session_dir s"
          using run_ops_session_dir [of engine "init_loop s cf" "operations (parse prompt)"] i r
          by simp
        have m: "version s \<le> version (ls_session ?st)"
          using run_ops_version_mono [of "init_loop s cf" engine "operations (parse prompt)"] i
          by simp
        obtain ls where b: "list_all2 (is_slot (session_dir s)) ls (fst (run_events (Some s') evs))"
          "sorted_wrt (<) ls" "\<forall>k\<in>set ls. version (ls_session ?st) < k"
          using Cons.IH [of s'] nr run(1) d r by auto
        have "fst (run_events (Some s) (ev # evs)) = new @ fst (run_events (Some s') evs)"
          using Ev_prompt run(1) r a(1) by (simp only: run_events_prompt)
        moreover have "list_all2 (is_slot (session_dir s)) (ks @ ls) (new @ fst (run_events (Some s') evs))"
          using a(2) b(1) by (rule list_all2_appendI)
        moreover have "sorted_wrt (<) (ks @ ls)"
          by (rule sorted_wrt_join [where m = "version (ls_session ?st)"]) (use a b in auto)
        moreover have "\<forall>k\<in>set (ks @ ls). version s < k"
          using a(4) b(3) m by fastforce
        ultimately show ?thesis by metis
      qed
    qed
  qed
qed

text \<open>
  C5 (amended). \<^verbatim>\<open>undo\<close> decrements \<^verbatim>\<open>version\<close>, so the path requested next is built from a
  version number that was used before. As long as no undo has reverted the session, every
  path returned by \<^verbatim>\<open>get_versioned_path\<close> during a run of prompts and undo requests is
  distinct from every path returned earlier in the run.
\<close>

theorem slots_distinct_without_revert:
  assumes "no_revert eng evs"
  shows "distinct (fst (run_events eng evs))"
proof (cases eng)
  case None
  then show ?thesis by (simp add: run_events_none)
next
  case (Some s)
  obtain ks where ks: "list_all2 (is_slot (session_dir s)) ks (fst (run_events (Some s) evs))"
    "sorted_wrt (<) ks"
    using run_events_slots assms Some by blast
  have "distinct ks" using ks(2) by (simp add: strict_sorted_iff)
  then show ?thesis using ks(1) Some slots_distinct by blast
qed

theorem slots_distinct_without_revert_witness:
  "no_revert (Some fresh) demo_run
   \<and> fst (run_events (Some fresh) demo_run)
       = [''sessions/demo/v001_eq.wav'', ''sessions/demo/v002_eq.wav'',
          ''sessions/demo/v003_eq.wav'', ''sessions/demo/v004_master.wav'',
          ''sessions/demo/v005_master_temp.wav'']
   \<and> distinct (fst (run_events (Some fresh) demo_run))"
proof -
  have a: "no_revert (Some fresh) demo_run" by code_simp
  have b: "fst (run_events (Some fresh) demo_run)
       = [''sessions/demo/v001_eq.wav'', ''sessions/demo/v002_eq.wav'',
          ''sessions/demo/v003_eq.wav'', ''sessions/demo/v004_master.wav'',
          ''sessions/demo/v005_master_temp.wav'']"
    by code_simp
  show ?thesis
    using a b slots_distinct_without_revert [OF a] by simp
qed

theorem slot_reused_after_undo_counterexample:
  "fst (run_events (Some fresh) undo_run)
     = [''sessions/demo/v001_eq.wav'', ''sessions/demo/v002_eq.wav'', ''sessions/demo/v002_eq.wav'']
   \<and> \<not> distinct (fst (run_events (Some fresh) undo_run))"
proof -
  have a: "fst (run_events (Some fresh) undo_run)
     = [''sessions/demo/v001_eq.wav'', ''sessions/demo/v002_eq.wav'', ''sessions/demo/v002_eq.wav'']"
    by code_simp
  show ?thesis by (simp only: a) simp
qed

end
